theory Spec2Isabelle
  imports
    Complex_Main
    "HOL-Library.Char_ord"
    "HOL-Library.List_Lexorder"
    "HOL-Library.Product_Lexorder"
    "HOL-Library.Multiset"
    "HOL-Library.Log_Nat"
begin

section \<open>Numbers\<close>

text \<open>
  A JavaScript number is a double. The finite doubles are rational numbers, and an
  arithmetic operation returns the exact result rounded to the nearest double, ties to
  the even significand (53 bits). \<open>expo y\<close> is the binary exponent of \<open>y > 0\<close>, the
  \<open>e\<close> with \<open>2^e \<le> y < 2^(e+1)\<close>. The exponent range of the format is not modelled:
  there is no overflow to Infinity and no subnormal number; NaN is kept apart, as
  \<open>None\<close>, where a conversion can produce it.
\<close>

definition expo :: "rat \<Rightarrow> int" where
  "expo y = (let (p, q) = quotient_of y; k = bitlen p - bitlen q in if 2 powi k \<le> y then k else k - 1)"

definition roundHalfEven :: "rat \<Rightarrow> int" where
  "roundHalfEven q =
     (let f = \<lfloor>q\<rfloor>; r = q - of_int f
      in if r < 1 / 2 then f else if 1 / 2 < r then f + 1 else if even f then f else f + 1)"

definition round64 :: "rat \<Rightarrow> rat" where
  "round64 x =
     (if x = 0 then 0
      else let ulp = 2 powi (expo \<bar>x\<bar> - 52)
           in sgn x * of_int (roundHalfEven (\<bar>x\<bar> / ulp)) * ulp)"

text \<open>\<^verbatim>\<open>a + b\<close> and \<^verbatim>\<open>a - b\<close> on numbers.\<close>

definition jsAdd :: "rat \<Rightarrow> rat \<Rightarrow> rat" where
  "jsAdd a b = round64 (a + b)"

definition jsSub :: "rat \<Rightarrow> rat \<Rightarrow> rat" where
  "jsSub a b = round64 (a - b)"

text \<open>
  A rational is \<open>representable\<close> when it is a double. \<open>exactRun xs\<close> says that the
  numbers of \<open>xs\<close> are doubles and so is every sum of the first \<open>n\<close> of them: adding them
  one after the other never rounds.
\<close>

definition representable :: "rat \<Rightarrow> bool" where
  "representable x = (round64 x = x)"

definition exactRun :: "rat list \<Rightarrow> bool" where
  "exactRun xs =
     (list_all representable xs \<and>
      list_all (\<lambda>n. representable (sum_list (take n xs))) [0..<Suc (length xs)])"

definition isDigit :: "char \<Rightarrow> bool" where
  "isDigit c = (CHR ''0'' \<le> c \<and> c \<le> CHR ''9'')"

definition digitValue :: "char \<Rightarrow> int" where
  "digitValue c = of_char c - of_char CHR ''0''"

definition decimalValue :: "string \<Rightarrow> int" where
  "decimalValue ds = foldl (\<lambda>n c. 10 * n + digitValue c) 0 ds"

text \<open>
  \<^verbatim>\<open>Number(s)\<close> for a string \<open>s\<close> of digits and dots (what \<^verbatim>\<open>[\d\.]+\<close> matches): digits
  with at most one dot and a digit on one side of it are a decimal literal, anything else
  is NaN.
\<close>

definition Number :: "string \<Rightarrow> rat option" where
  "Number s =
     (let ip = takeWhile isDigit s; rest = dropWhile isDigit s
      in if rest = [] then (if ip = [] then None else Some (round64 (of_int (decimalValue ip))))
         else if hd rest = CHR ''.'' \<and> list_all isDigit (tl rest) \<and> (ip \<noteq> [] \<or> tl rest \<noteq> [])
           then Some (round64 (of_int (decimalValue ip) + of_int (decimalValue (tl rest)) / 10 ^ length (tl rest)))
         else None)"

section \<open>The expense table and its request handlers (server.js)\<close>

text \<open>
  The server keeps one SQLite table,
  \<^verbatim>\<open>expenses(id INTEGER PRIMARY KEY AUTOINCREMENT, description TEXT, amount REAL,
  category TEXT, date TEXT)\<close>, and every handler runs one statement against it.
  A row is a record; the table is the list of its rows in rowid order together with the
  largest rowid ever handed out (what \<^verbatim>\<open>AUTOINCREMENT\<close> keeps in
  \<^verbatim>\<open>sqlite_sequence\<close>). Text columns compare bytewise (SQLite's BINARY collation),
  which is the lexicographic order on \<^typ>\<open>string\<close>. An amount is a rational number:
  every finite double is one.
\<close>

record expense =
  ident :: int
  description :: string
  amount :: rat
  category :: string
  date :: string

record db =
  rows :: "expense list"
  lastID :: int

datatype error = BadRequest string | NotFound | ServerError

subsection \<open>Request payloads\<close>

text \<open>
  A JSON field that the handlers treat as text is absent or falsy and not a string
  (\<open>Missing\<close>), a string (\<open>Text\<close>), or some other truthy value, kept as what
  \<^verbatim>\<open>String(x)\<close> prints for it (\<open>NonText\<close>). The amount field is kept as the value of
  \<^verbatim>\<open>Number(amount)\<close>, \<open>None\<close> when that is NaN (as it is for \<^verbatim>\<open>undefined\<close>).
  The date field is a string or absent. \<open>trim\<close> strips the ASCII white space; the
  white space beyond ASCII that JavaScript also strips is left out.
\<close>

datatype field = Missing | Text string | NonText string

record payload =
  p_description :: field
  p_amount :: "rat option"
  p_category :: field
  p_date :: "string option"

fun truthy :: "field \<Rightarrow> bool" where
  "truthy Missing = False"
| "truthy (Text s) = (s \<noteq> [])"
| "truthy (NonText s) = True"

fun String :: "field \<Rightarrow> string" where
  "String Missing = ''undefined''"
| "String (Text s) = s"
| "String (NonText s) = s"

definition isSpace :: "char \<Rightarrow> bool" where
  "isSpace c = (c \<in> set [CHR '' '', CHR 0x09, CHR 0x0A, CHR 0x0B, CHR 0x0C, CHR 0x0D])"

definition trim :: "string \<Rightarrow> string" where
  "trim s = rev (dropWhile isSpace (rev (dropWhile isSpace s)))"

text \<open>The test \<^verbatim>\<open>/^\d{4}-\d{2}-\d{2}$/\<close>.\<close>

fun isDateText :: "string \<Rightarrow> bool" where
  "isDateText [y1, y2, y3, y4, s1, m1, m2, s2, d1, d2] =
     (isDigit y1 \<and> isDigit y2 \<and> isDigit y3 \<and> isDigit y4 \<and> s1 = CHR ''-'' \<and>
      isDigit m1 \<and> isDigit m2 \<and> s2 = CHR ''-'' \<and> isDigit d1 \<and> isDigit d2)"
| "isDateText _ = False"

definition validateExpense :: "payload option \<Rightarrow> string option" where
  "validateExpense body =
     (case body of
        None \<Rightarrow> Some ''Missing payload''
      | Some p \<Rightarrow>
          if \<not> truthy (p_description p) \<or> trim (String (p_description p)) = []
            then Some ''Description required''
          else if (case p_amount p of None \<Rightarrow> True | Some a \<Rightarrow> a \<le> 0)
            then Some ''Amount must be a positive number''
          else if \<not> truthy (p_category p) \<or> trim (String (p_category p)) = []
            then Some ''Category required''
          else if (case p_date p of None \<Rightarrow> True | Some d \<Rightarrow> d = [] \<or> \<not> isDateText d)
            then Some ''Date required (YYYY-MM-DD)''
          else None)"

subsection \<open>Statements on the table\<close>

definition insertRow :: "string \<Rightarrow> rat \<Rightarrow> string \<Rightarrow> string \<Rightarrow> db \<Rightarrow> db \<times> expense" where
  "insertRow d a c dt t =
     (let r = \<lparr>ident = lastID t + 1, description = d, amount = a, category = c, date = dt\<rparr>
      in (\<lparr>rows = rows t @ [r], lastID = lastID t + 1\<rparr>, r))"

text \<open>\<^verbatim>\<open>WHERE id = ?\<close> with the number \<^verbatim>\<open>Number(req.params.id)\<close>.\<close>

definition hasId :: "rat \<Rightarrow> expense \<Rightarrow> bool" where
  "hasId i r = (of_int (ident r) = i)"

definition updateRows :: "string \<Rightarrow> rat \<Rightarrow> string \<Rightarrow> string \<Rightarrow> rat \<Rightarrow> expense list \<Rightarrow> expense list" where
  "updateRows d a c dt i rs =
     map (\<lambda>r. if hasId i r then r\<lparr>description := d, amount := a, category := c, date := dt\<rparr> else r) rs"

definition changes :: "rat \<Rightarrow> expense list \<Rightarrow> nat" where
  "changes i rs = length (filter (hasId i) rs)"

subsection \<open>POST, PUT and DELETE /api/expenses\<close>

definition postExpense :: "payload option \<Rightarrow> db \<Rightarrow> db \<times> (error + expense)" where
  "postExpense body t =
     (case validateExpense body of
        Some errMsg \<Rightarrow> (t, Inl (BadRequest errMsg))
      | None \<Rightarrow>
          (case map_option (\<lambda>p. (p_description p, p_amount p, p_category p, p_date p)) body of
             Some (Text d, Some a, Text c, Some dt) \<Rightarrow>
               (let (t', r) = insertRow (trim d) a (trim c) dt t in (t', Inr r))
           | _ \<Rightarrow> (t, Inl ServerError)))"

text \<open>
  \<open>idParam\<close> is \<^verbatim>\<open>Number(req.params.id)\<close>, \<open>None\<close> when it is NaN. A description or
  category that is truthy but no string passes \<open>validateExpense\<close> and then has no
  \<^verbatim>\<open>trim\<close> method: the handler throws before the statement runs (\<open>ServerError\<close>).
  After an update that changed a row the handler answers with
  \<^verbatim>\<open>SELECT * FROM expenses WHERE id = ?\<close>, the row or nothing.
\<close>

definition putExpense :: "rat option \<Rightarrow> payload option \<Rightarrow> db \<Rightarrow> db \<times> (error + expense option)" where
  "putExpense idParam body t =
     (case idParam of
        None \<Rightarrow> (t, Inl (BadRequest ''Invalid id''))
      | Some i \<Rightarrow>
          if i = 0 then (t, Inl (BadRequest ''Invalid id''))
          else
            (case validateExpense body of
               Some errMsg \<Rightarrow> (t, Inl (BadRequest errMsg))
             | None \<Rightarrow>
                 (case map_option (\<lambda>p. (p_description p, p_amount p, p_category p, p_date p)) body of
                    Some (Text d, Some a, Text c, Some dt) \<Rightarrow>
                      if changes i (rows t) = 0 then (t, Inl NotFound)
                      else
                        (let t' = t\<lparr>rows := updateRows (trim d) a (trim c) dt i (rows t)\<rparr>
                         in (t', Inr (find (hasId i) (rows t'))))
                  | _ \<Rightarrow> (t, Inl ServerError))))"

definition deleteExpense :: "rat option \<Rightarrow> db \<Rightarrow> db \<times> (error + bool)" where
  "deleteExpense idParam t =
     (case idParam of
        None \<Rightarrow> (t, Inl (BadRequest ''Invalid id''))
      | Some i \<Rightarrow>
          if i = 0 then (t, Inl (BadRequest ''Invalid id''))
          else if changes i (rows t) = 0 then (t, Inl NotFound)
          else (t\<lparr>rows := filter (\<lambda>r. \<not> hasId i r) (rows t)\<rparr>, Inr True))"

subsection \<open>Start-up: the sample rows of an empty table\<close>

definition samples :: "(string \<times> rat \<times> string \<times> string) list" where
  "samples =
     [(''Groceries'', 49 / 2, ''Food'', ''2025-07-10''),
      (''Bus ticket'', 11 / 4, ''Transport'', ''2025-07-11''),
      (''Electricity bill'', 60, ''Utilities'', ''2025-07-05''),
      (''Cinema'', 12, ''Entertainment'', ''2025-08-01''),
      (''Lunch'', 41 / 4, ''Food'', ''2025-08-03'')]"

definition startup :: "db \<Rightarrow> db" where
  "startup t =
     (if length (rows t) = 0
      then foldl (\<lambda>t' (d, a, c, dt). fst (insertRow d a c dt t')) t samples
      else t)"

definition emptyDb :: db where
  "emptyDb = \<lparr>rows = [], lastID = 0\<rparr>"

subsection \<open>GET /api/expenses\<close>

record query =
  q_category :: "string option"
  q_start :: "string option"
  q_end :: "string option"

text \<open>
  A query parameter adds its filter when it is present and not the empty string (a
  parameter given more than once arrives as an array and is left out here).
\<close>

fun param :: "string option \<Rightarrow> (string \<Rightarrow> expense \<Rightarrow> bool) \<Rightarrow> (expense \<Rightarrow> bool) list" where
  "param None f = []"
| "param (Some v) f = (if v = [] then [] else [f v])"

text \<open>\<^verbatim>\<open>ORDER BY date DESC, id DESC\<close>.\<close>

definition orderByDateIdDesc :: "expense list \<Rightarrow> expense list" where
  "orderByDateIdDesc rs = rev (sort_key (\<lambda>r. (date r, ident r)) rs)"

definition listExpenses :: "query \<Rightarrow> db \<Rightarrow> expense list" where
  "listExpenses q t =
     (let filters =
            param (q_category q) (\<lambda>v r. category r = v) @
            param (q_start q) (\<lambda>v r. date r \<ge> v) @
            param (q_end q) (\<lambda>v r. date r \<le> v)
      in orderByDateIdDesc (filter (\<lambda>r. list_all (\<lambda>f. f r) filters) (rows t)))"

subsection \<open>POST /api/chat: the \<open>top\<close> branch\<close>

text \<open>
  \<open>nMatch\<close> is the number after \<^verbatim>\<open>top\<close> in the message, when there is one.
  \<^verbatim>\<open>ORDER BY amount DESC LIMIT ?\<close> names no second key; rows of equal amount are
  taken in the order of the table scan (by rowid).
\<close>

definition orderByAmountDesc :: "expense list \<Rightarrow> expense list" where
  "orderByAmountDesc rs = sort_key (\<lambda>r. - amount r) rs"

definition topExpenses :: "nat option \<Rightarrow> db \<Rightarrow> expense list" where
  "topExpenses nMatch t =
     (let n = (case nMatch of None \<Rightarrow> 5 | Some k \<Rightarrow> min 50 k);
          rs = take n (orderByAmountDesc (rows t))
      in take n rs)"

subsection \<open>POST /api/chatbot: \<open>totalBetween\<close> and the add-expense command\<close>

text \<open>
  \<^verbatim>\<open>SUM(amount)\<close> is NULL over no row. Over rows it adds the \<^verbatim>\<open>REAL\<close> values, which are
  doubles, in the order of the scan. The engine is not part of the source, and its
  versions add in two ways: the older ones keep a running sum, each addition rounded
  (\<open>Plain\<close>); from SQLite 3.44 on the rounding error of every addition is kept as well
  and added to the sum at the end (\<open>Compensated\<close>, the Kahan-Babuska-Neumaier step
  \<^verbatim>\<open>t = s + r; err += |s| > |r| ? (s - t) + r : (r - t) + s; s = t\<close>). The handlers below
  take the way of adding as a parameter.
\<close>

datatype summation = Plain | Compensated

definition kbnStep :: "rat \<times> rat \<Rightarrow> rat \<Rightarrow> rat \<times> rat" where
  "kbnStep acc r =
     (let s = fst acc; t = jsAdd s r
      in (t, jsAdd (snd acc) (if \<bar>s\<bar> > \<bar>r\<bar> then jsAdd (jsSub s t) r else jsAdd (jsSub r t) s)))"

fun addDoubles :: "summation \<Rightarrow> rat list \<Rightarrow> rat" where
  "addDoubles Plain xs = foldl jsAdd 0 xs"
| "addDoubles Compensated xs = (let acc = foldl kbnStep (0, 0) xs in jsAdd (fst acc) (snd acc))"

definition SUM_amount :: "summation \<Rightarrow> rat list \<Rightarrow> rat option" where
  "SUM_amount eng xs = (if xs = [] then None else Some (addDoubles eng xs))"

text \<open>\<^verbatim>\<open>return row && row.s ? Number(row.s) : 0\<close>: NULL and 0 both give 0.\<close>

definition totalBetween :: "summation \<Rightarrow> string \<Rightarrow> string \<Rightarrow> db \<Rightarrow> rat" where
  "totalBetween eng start end' t =
     (case SUM_amount eng (map amount (filter (\<lambda>r. date r \<ge> start \<and> date r \<le> end') (rows t))) of
        None \<Rightarrow> 0
      | Some s \<Rightarrow> if s \<noteq> 0 then s else 0)"

text \<open>
  The command \<^verbatim>\<open>add expense, Lunch, 12.50, Food, 2025-08-09\<close>: the four groups of
  \<open>addMatch\<close> go into the table as they are, without \<open>validateExpense\<close>. A NaN amount
  is bound as NULL and the \<^verbatim>\<open>NOT NULL\<close> column rejects the row.
\<close>

definition chatbotAddExpense :: "string \<Rightarrow> string \<Rightarrow> string \<Rightarrow> string \<Rightarrow> db \<Rightarrow> db \<times> error option" where
  "chatbotAddExpense g1 g2 g3 g4 t =
     (let description = trim g1; amount = Number g2; category = trim g3; date = g4
      in case amount of
           None \<Rightarrow> (t, Some ServerError)
         | Some a \<Rightarrow> (fst (insertRow description a category date t), None))"

section \<open>Aggregation in the browser (graphs.js)\<close>

text \<open>
  The charts page fetches \<^verbatim>\<open>/api/expenses\<close> and aggregates the array it gets. An element
  is an object with a category (\<open>None\<close> when the property is missing or null), an amount
  and a date.
\<close>

record expenseJson =
  e_category :: "string option"
  e_amount :: rat
  e_date :: string

subsection \<open>Objects used as dictionaries\<close>

text \<open>
  \<^verbatim>\<open>const sums = {}\<close> is an ordinary object: its own properties are kept here in the order
  of their creation. \<^verbatim>\<open>Object.entries\<close> and \<^verbatim>\<open>Object.keys\<close> list the keys that are array
  indices (canonical decimal numerals below \<open>2^32 - 1\<close>) first, in ascending numeric
  order, and then the other keys in the order of their creation. A key that is not an
  own property is looked up in \<^verbatim>\<open>Object.prototype\<close>, whose member names are \<open>inherited\<close>.
\<close>

type_synonym 'v object = "(string \<times> 'v) list"

definition inherited :: "string list" where
  "inherited =
     [''constructor'', ''hasOwnProperty'', ''isPrototypeOf'', ''propertyIsEnumerable'',
      ''toLocaleString'', ''toString'', ''valueOf'', ''__defineGetter__'', ''__defineSetter__'',
      ''__lookupGetter__'', ''__lookupSetter__'', ''__proto__'']"

definition arrayIndex :: "string \<Rightarrow> int option" where
  "arrayIndex k =
     (if k \<noteq> [] \<and> list_all isDigit k \<and> (k = ''0'' \<or> hd k \<noteq> CHR ''0'') \<and> decimalValue k < 4294967295
      then Some (decimalValue k) else None)"

fun setProp :: "('k \<times> 'v) list \<Rightarrow> 'k \<Rightarrow> 'v \<Rightarrow> ('k \<times> 'v) list" where
  "setProp [] k v = [(k, v)]"
| "setProp (p # ps) k v = (if fst p = k then (k, v) # ps else p # setProp ps k v)"

definition indexOf :: "string \<Rightarrow> int" where
  "indexOf k = (case arrayIndex k of Some n \<Rightarrow> n | None \<Rightarrow> 0)"

definition entries :: "'v object \<Rightarrow> (string \<times> 'v) list" where
  "entries obj =
     sort_key (\<lambda>p. indexOf (fst p)) (filter (\<lambda>p. arrayIndex (fst p) \<noteq> None) obj) @
     filter (\<lambda>p. arrayIndex (fst p) = None) obj"

text \<open>
  \<^verbatim>\<open>Array.prototype.sort\<close> with a comparison function is a stable sort: \<open>cmp x y > 0\<close>
  puts \<open>x\<close> after \<open>y\<close>, and elements that compare equal keep their order.
\<close>

fun insertBy :: "('a \<Rightarrow> 'a \<Rightarrow> rat) \<Rightarrow> 'a \<Rightarrow> 'a list \<Rightarrow> 'a list" where
  "insertBy cmp x [] = [x]"
| "insertBy cmp x (y # ys) = (if cmp x y \<le> 0 then x # y # ys else y # insertBy cmp x ys)"

definition sortBy :: "('a \<Rightarrow> 'a \<Rightarrow> rat) \<Rightarrow> 'a list \<Rightarrow> 'a list" where
  "sortBy cmp xs = foldr (insertBy cmp) xs []"

subsection \<open>\<open>categoryTotals\<close>\<close>

text \<open>
  \<^verbatim>\<open>const cat = e.category || 'Other'\<close>, then
  \<^verbatim>\<open>sums[cat] = (sums[cat] || 0) + Number(e.amount || 0)\<close>. When \<open>cat\<close> is no own property
  yet but names a member of \<^verbatim>\<open>Object.prototype\<close>, \<^verbatim>\<open>sums[cat]\<close> is that member, which is
  truthy, and the sum is a string. For \<^verbatim>\<open>__proto__\<close> the assignment of a string is
  ignored and the record leaves no trace; for the other names the total of the category
  is from then on a string, which the model reports as \<open>NonNumericTotal\<close>.
\<close>

datatype failure = NonNumericTotal

definition categoryOf :: "expenseJson \<Rightarrow> string" where
  "categoryOf e = (case e_category e of None \<Rightarrow> ''Other'' | Some c \<Rightarrow> if c = [] then ''Other'' else c)"

fun accumulate :: "rat object \<Rightarrow> expenseJson list \<Rightarrow> failure + rat object" where
  "accumulate totals [] = Inr totals"
| "accumulate totals (e # es) =
     (let cat = categoryOf e
      in case map_of totals cat of
           Some v \<Rightarrow> accumulate (setProp totals cat (jsAdd v (e_amount e))) es
         | None \<Rightarrow>
             if cat = ''__proto__'' then accumulate totals es
             else if cat \<in> set inherited then Inl NonNumericTotal
             else accumulate (setProp totals cat (jsAdd 0 (e_amount e))) es)"

definition categoryTotals :: "expenseJson list \<Rightarrow> failure + (string \<times> rat) list" where
  "categoryTotals expenses =
     (case accumulate [] expenses of
        Inl f \<Rightarrow> Inl f
      | Inr totals \<Rightarrow> Inr (sortBy (\<lambda>a b. jsSub (snd b) (snd a)) (entries totals)))"

subsection \<open>\<open>monthlyTotals\<close>\<close>

text \<open>
  \<open>now\<close> is \<^verbatim>\<open>new Date()\<close>, of which only \<^verbatim>\<open>getFullYear()\<close> and \<^verbatim>\<open>getMonth()\<close> (0 to 11)
  are read. \<^verbatim>\<open>new Date(y, m, 1)\<close> is the first day, in local time, of the month \<open>m\<close>
  months after January of year \<open>y\<close> (a year from 0 to 99 stands for 1900 + \<open>y\<close>);
  \<open>dateYM\<close> gives its \<^verbatim>\<open>getFullYear()\<close> and \<^verbatim>\<open>getMonth()\<close>. The key
  \<^verbatim>\<open>`${d.getFullYear()}-${String(d.getMonth()+1).padStart(2,'0')}`\<close> is kept as the pair
  of the year and the month number from 1 to 12; different pairs give different strings,
  and no such string is an array index or the name of an inherited member, so the object
  \<open>map\<close> lists its keys in the order of their creation. The labels returned are
  these keys: their text (\<^verbatim>\<open>toLocaleString\<close> with a short month and the year) depends
  on the locale of the browser and is left out.
\<close>

definition dateYM :: "int \<Rightarrow> int \<Rightarrow> int \<times> int" where
  "dateYM y m = (let yr = (if 0 \<le> y \<and> y \<le> 99 then 1900 + y else y) in (yr + m div 12, m mod 12))"

definition keyOf :: "int \<times> int \<Rightarrow> int \<times> int" where
  "keyOf d = (fst d, snd d + 1)"

text \<open>
  \<^verbatim>\<open>new Date(e.date)\<close> for a date string of the stored form \<^verbatim>\<open>YYYY-MM-DD\<close> is midnight
  UTC of that day, or an invalid date when the month or the day is out of range (engines
  differ on a day past the end of its month; it is invalid here, as in the standard).
  Strings of another form are not stored by the server and count as invalid here.
  \<^verbatim>\<open>getFullYear()\<close> and \<^verbatim>\<open>getMonth()\<close> read the date in local time: with local time
  behind UTC (\<open>offset < 0\<close>, in minutes), midnight UTC is still the evening before.
\<close>

definition leapYear :: "int \<Rightarrow> bool" where
  "leapYear y = (y mod 4 = 0 \<and> (y mod 100 \<noteq> 0 \<or> y mod 400 = 0))"

definition daysInMonth :: "int \<Rightarrow> int \<Rightarrow> int" where
  "daysInMonth y m =
     (if m = 2 then (if leapYear y then 29 else 28)
      else if m \<in> set [4, 6, 9, 11] then 30 else 31)"

definition parseDate :: "string \<Rightarrow> (int \<times> int \<times> int) option" where
  "parseDate s =
     (if isDateText s
      then (let y = decimalValue (take 4 s); m = decimalValue (take 2 (drop 5 s)); d = decimalValue (drop 8 s)
            in if 1 \<le> m \<and> m \<le> 12 \<and> 1 \<le> d \<and> d \<le> daysInMonth y m then Some (y, m, d) else None)
      else None)"

definition localYM :: "int \<Rightarrow> string \<Rightarrow> (int \<times> int) option" where
  "localYM offset s =
     (case parseDate s of
        None \<Rightarrow> None
      | Some (y, m, d) \<Rightarrow>
          if offset < 0 \<and> d = 1 then (if m = 1 then Some (y - 1, 11) else Some (y, m - 2))
          else Some (y, m - 1))"

definition monthlyTotals :: "int \<Rightarrow> int \<times> int \<Rightarrow> expenseJson list \<Rightarrow> int \<Rightarrow> (int \<times> int) list \<times> rat list" where
  "monthlyTotals offset now expenses monthsBack =
     (let map0 = foldl (\<lambda>m i. setProp m (keyOf (dateYM (fst now) (snd now - i))) 0) []
                   (rev [0..monthsBack - 1]);
          map1 = foldl (\<lambda>m e. case localYM offset (e_date e) of
                                None \<Rightarrow> m
                              | Some d \<Rightarrow>
                                  (case map_of m (keyOf d) of
                                     None \<Rightarrow> m
                                   | Some v \<Rightarrow> setProp m (keyOf d) (jsAdd v (e_amount e))))
                   map0 expenses;
          labels = map fst map1;
          values = map snd map1
      in (labels, values))"

subsection \<open>Key order, per-category sums and exact additions\<close>

text \<open>
  \<open>firstSeen\<close> lists the distinct elements of a list in the order of their first
  occurrence; \<open>ownKeys\<close> is the order in which \<^verbatim>\<open>Object.entries\<close> lists keys created in a
  given order. \<open>exactSums\<close> says that every running total of every category is a
  double, so that no addition of the loop rounds. \<open>tally\<close> is the loop of \<open>categoryTotals\<close> when no category names a member of
  \<^verbatim>\<open>Object.prototype\<close>.
\<close>

fun firstSeen :: "'a list \<Rightarrow> 'a list" where
  "firstSeen [] = []"
| "firstSeen (x # xs) = x # removeAll x (firstSeen xs)"

definition ownKeys :: "string list \<Rightarrow> string list" where
  "ownKeys ks = sort_key indexOf (filter (\<lambda>k. arrayIndex k \<noteq> None) ks) @ filter (\<lambda>k. arrayIndex k = None) ks"

definition get0 :: "rat object \<Rightarrow> string \<Rightarrow> rat" where
  "get0 totals c = (case map_of totals c of Some v \<Rightarrow> v | None \<Rightarrow> 0)"

fun tally :: "rat object \<Rightarrow> expenseJson list \<Rightarrow> rat object" where
  "tally totals [] = totals"
| "tally totals (e # es) =
     tally (setProp totals (categoryOf e) (jsAdd (get0 totals (categoryOf e)) (e_amount e))) es"

definition exactSums :: "expenseJson list \<Rightarrow> bool" where
  "exactSums es =
     list_all (\<lambda>n. list_all (\<lambda>c. representable (sum_list (map e_amount (filter (\<lambda>e. categoryOf e = c) (take n es)))))
                 (map categoryOf es)) [0..<Suc (length es)]"

definition noInheritedNames :: "expenseJson list \<Rightarrow> bool" where
  "noInheritedNames es = list_all (\<lambda>e. categoryOf e \<notin> set inherited) es"

definition noIndexNames :: "expenseJson list \<Rightarrow> bool" where
  "noIndexNames es = list_all (\<lambda>e. arrayIndex (categoryOf e) = None) es"

section \<open>The invariant of the amounts\<close>

definition positiveAmounts :: "db \<Rightarrow> bool" where
  "positiveAmounts t = list_all (\<lambda>r. amount r > 0) (rows t)"

section \<open>Example data\<close>

text \<open>The table after start-up on an empty file, and a valid payload for row 2.\<close>

definition sampleRows :: "expense list" where
  "sampleRows =
    [\<lparr>ident = 1, description = ''Groceries'', amount = 49 / 2, category = ''Food'', date = ''2025-07-10''\<rparr>,
     \<lparr>ident = 2, description = ''Bus ticket'', amount = 11 / 4, category = ''Transport'', date = ''2025-07-11''\<rparr>,
     \<lparr>ident = 3, description = ''Electricity bill'', amount = 60, category = ''Utilities'', date = ''2025-07-05''\<rparr>,
     \<lparr>ident = 4, description = ''Cinema'', amount = 12, category = ''Entertainment'', date = ''2025-08-01''\<rparr>,
     \<lparr>ident = 5, description = ''Lunch'', amount = 41 / 4, category = ''Food'', date = ''2025-08-03''\<rparr>]"

definition tram :: payload where
  "tram = \<lparr>p_description = Text '' Tram '', p_amount = Some 3, p_category = Text ''Transport'',
            p_date = Some ''2025-07-12''\<rparr>"

definition tramRow :: expense where
  "tramRow = \<lparr>ident = 2, description = ''Tram'', amount = 3, category = ''Transport'', date = ''2025-07-12''\<rparr>"

definition blank :: payload where
  "blank = \<lparr>p_description = Missing, p_amount = None, p_category = Missing, p_date = None\<rparr>"

definition foodQuery :: query where
  "foodQuery = \<lparr>q_category = Some ''Food'', q_start = Some ''2025-07-01'', q_end = Some ''2025-08-31''\<rparr>"

text \<open>Two rows of equal amount, the later one more recent; and a table of \<open>n\<close> rows.\<close>

definition tiedDb :: db where
  "tiedDb = fst (insertRow ''Dinner'' 20 ''Food'' ''2025-02-01''
              (fst (insertRow ''Lunch'' 20 ''Food'' ''2025-01-01'' emptyDb)))"

definition manyRows :: "nat \<Rightarrow> expense list" where
  "manyRows n = map (\<lambda>k. \<lparr>ident = int k, description = ''Coffee'', amount = 3, category = ''Food'',
                         date = ''2025-07-10''\<rparr>) [1..<Suc n]"

definition manyDb :: "nat \<Rightarrow> db" where
  "manyDb n = \<lparr>rows = manyRows n, lastID = int n\<rparr>"

text \<open>
  Arrays for \<open>categoryTotals\<close>: the three July rows; amounts 0.1, 0.1 and 1.1 as doubles;
  categories that are array indices; a category named \<^verbatim>\<open>__proto__\<close>; and totals that tie.
\<close>

definition scenario :: "expenseJson list" where
  "scenario =
     [\<lparr>e_category = Some ''Food'', e_amount = 49 / 2, e_date = ''2025-07-10''\<rparr>,
      \<lparr>e_category = Some ''Transport'', e_amount = 11 / 4, e_date = ''2025-07-11''\<rparr>,
      \<lparr>e_category = Some ''Utilities'', e_amount = 60, e_date = ''2025-07-05''\<rparr>]"

definition dimes :: "expenseJson list" where
  "dimes =
     [\<lparr>e_category = Some ''Food'', e_amount = 3602879701896397 / 36028797018963968, e_date = ''2025-07-10''\<rparr>,
      \<lparr>e_category = Some ''Transport'', e_amount = 3602879701896397 / 36028797018963968, e_date = ''2025-07-11''\<rparr>,
      \<lparr>e_category = Some ''Food'', e_amount = 2476979795053773 / 2251799813685248, e_date = ''2025-07-12''\<rparr>]"

definition numbered :: "expenseJson list" where
  "numbered =
     [\<lparr>e_category = Some ''2'', e_amount = 5, e_date = ''2025-07-10''\<rparr>,
      \<lparr>e_category = Some ''1'', e_amount = 5, e_date = ''2025-07-11''\<rparr>]"

definition hidden :: "expenseJson list" where
  "hidden = [\<lparr>e_category = Some ''__proto__'', e_amount = 5, e_date = ''2025-07-10''\<rparr>]"

definition tiedTotals :: "expenseJson list" where
  "tiedTotals =
     [\<lparr>e_category = Some ''Food'', e_amount = 5, e_date = ''2025-07-10''\<rparr>,
      \<lparr>e_category = Some ''Transport'', e_amount = 5, e_date = ''2025-07-11''\<rparr>,
      \<lparr>e_category = None, e_amount = 3, e_date = ''2025-07-12''\<rparr>,
      \<lparr>e_category = Some ''Food'', e_amount = 2, e_date = ''2025-07-12''\<rparr>,
      \<lparr>e_category = Some [], e_amount = 2, e_date = ''2025-07-13''\<rparr>]"

text \<open>Three categories of one record each, with the amounts 0.1, 0.2 and 0.3 as doubles.\<close>

definition tenths :: "expenseJson list" where
  "tenths =
     [\<lparr>e_category = Some ''A'', e_amount = 3602879701896397 / 36028797018963968, e_date = ''2025-07-10''\<rparr>,
      \<lparr>e_category = Some ''B'', e_amount = 3602879701896397 / 18014398509481984, e_date = ''2025-07-11''\<rparr>,
      \<lparr>e_category = Some ''C'', e_amount = 5404319552844595 / 18014398509481984, e_date = ''2025-07-12''\<rparr>]"

text \<open>A table of two rows of the same day, with the amounts 0.1 and 0.2 as doubles.\<close>

definition smallChange :: db where
  "smallChange =
     fst (insertRow ''Gum'' (3602879701896397 / 18014398509481984) ''Food'' ''2025-07-10''
       (fst (insertRow ''Stamp'' (3602879701896397 / 36028797018963968) ''Post'' ''2025-07-10'' emptyDb)))"

text \<open>One expense dated the first of July 2025.\<close>

definition firstOfJuly :: "expenseJson list" where
  "firstOfJuly = [\<lparr>e_category = Some ''Food'', e_amount = 10, e_date = ''2025-07-01''\<rparr>]"

lemma startup_emptyDb: "startup emptyDb = \<lparr>rows = sampleRows, lastID = 5\<rparr>"
  by (simp add: startup_def emptyDb_def samples_def insertRow_def Let_def sampleRows_def)

lemma trim_Tram: "trim '' Tram '' = ''Tram''" "trim ''Transport'' = ''Transport''"
  by (simp_all add: trim_def isSpace_def)

lemma validate_tram: "validateExpense (Some tram) = None"
  by (simp add: validateExpense_def tram_def trim_def isSpace_def isDigit_def)

lemma put_tram:
  "putExpense (Some 2) (Some tram) (startup emptyDb) =
     (\<lparr>rows = sampleRows[1 := tramRow], lastID = 5\<rparr>, Inr (Some tramRow))"
  unfolding putExpense_def validate_tram startup_emptyDb
  by (simp add: tram_def changes_def hasId_def updateRows_def trim_Tram sampleRows_def tramRow_def)

section \<open>Update and delete by id\<close>

lemma putExpense_Inr:
  assumes "putExpense idParam body t = (t', Inr res)"
  shows "\<exists>i p d a c dt. idParam = Some i \<and> i \<noteq> 0 \<and> body = Some p \<and> validateExpense body = None \<and>
           p_description p = Text d \<and> p_amount p = Some a \<and> p_category p = Text c \<and> p_date p = Some dt \<and>
           changes i (rows t) \<noteq> 0 \<and>
           t' = t\<lparr>rows := updateRows (trim d) a (trim c) dt i (rows t)\<rparr> \<and>
           res = find (hasId i) (rows t')"
  using assms
  by (auto simp: putExpense_def Let_def split: option.splits if_splits field.splits prod.splits)

lemma putExpense_Inl:
  assumes "putExpense idParam body t = (t', Inl e)"
  shows "t' = t"
  using assms
  by (auto simp: putExpense_def Let_def split: option.splits if_splits field.splits prod.splits)

lemma deleteExpense_Inl:
  assumes "deleteExpense idParam t = (t', Inl e)"
  shows "t' = t"
  using assms
  by (auto simp: deleteExpense_def Let_def split: option.splits if_splits)

text \<open>
  Claim C9. A successful update by id (\<^verbatim>\<open>PUT /api/expenses/:id\<close>) replaces the description,
  amount, category and date of the row with that id by the payload's values (description
  and category trimmed), keeps the id of every row, keeps every row with another id as it
  was, and adds or removes no row.
\<close>

theorem put_replaces_fields:
  assumes "putExpense idParam body t = (t', Inr res)"
  shows "\<exists>i p d a c dt. idParam = Some i \<and> body = Some p \<and>
           p_description p = Text d \<and> p_amount p = Some a \<and> p_category p = Text c \<and> p_date p = Some dt \<and>
           lastID t' = lastID t \<and> length (rows t') = length (rows t) \<and>
           (\<forall>k < length (rows t).
              ident (rows t' ! k) = ident (rows t ! k) \<and>
              (of_int (ident (rows t ! k)) = i \<longrightarrow>
                 description (rows t' ! k) = trim d \<and> amount (rows t' ! k) = a \<and>
                 category (rows t' ! k) = trim c \<and> date (rows t' ! k) = dt) \<and>
              (of_int (ident (rows t ! k)) \<noteq> i \<longrightarrow> rows t' ! k = rows t ! k))"
proof -
  from putExpense_Inr[OF assms] obtain i p d a c dt where
    h: "idParam = Some i" "body = Some p" "p_description p = Text d" "p_amount p = Some a"
       "p_category p = Text c" "p_date p = Some dt"
       "t' = t\<lparr>rows := updateRows (trim d) a (trim c) dt i (rows t)\<rparr>"
    by blast
  have "lastID t' = lastID t" "length (rows t') = length (rows t)"
    using h(7) by (simp_all add: updateRows_def)
  moreover have "\<forall>k < length (rows t).
              ident (rows t' ! k) = ident (rows t ! k) \<and>
              (of_int (ident (rows t ! k)) = i \<longrightarrow>
                 description (rows t' ! k) = trim d \<and> amount (rows t' ! k) = a \<and>
                 category (rows t' ! k) = trim c \<and> date (rows t' ! k) = dt) \<and>
              (of_int (ident (rows t ! k)) \<noteq> i \<longrightarrow> rows t' ! k = rows t ! k)"
    using h(7) by (simp add: updateRows_def hasId_def)
  ultimately show ?thesis using h(1-6) by blast
qed

theorem put_replaces_fields_witness:
  "putExpense (Some 2) (Some tram) (startup emptyDb) =
     (\<lparr>rows = sampleRows[1 := tramRow], lastID = 5\<rparr>, Inr (Some tramRow)) \<and>
   (\<exists>i p d a c dt. Some (2::rat) = Some i \<and> Some tram = Some p \<and>
           p_description p = Text d \<and> p_amount p = Some a \<and> p_category p = Text c \<and> p_date p = Some dt \<and>
           lastID \<lparr>rows = sampleRows[1 := tramRow], lastID = 5\<rparr> = lastID (startup emptyDb) \<and>
           length (rows \<lparr>rows = sampleRows[1 := tramRow], lastID = 5\<rparr>) = length (rows (startup emptyDb)) \<and>
           (\<forall>k < length (rows (startup emptyDb)).
              ident (rows \<lparr>rows = sampleRows[1 := tramRow], lastID = 5\<rparr> ! k) = ident (rows (startup emptyDb) ! k) \<and>
              (of_int (ident (rows (startup emptyDb) ! k)) = i \<longrightarrow>
                 description (rows \<lparr>rows = sampleRows[1 := tramRow], lastID = 5\<rparr> ! k) = trim d \<and>
                 amount (rows \<lparr>rows = sampleRows[1 := tramRow], lastID = 5\<rparr> ! k) = a \<and>
                 category (rows \<lparr>rows = sampleRows[1 := tramRow], lastID = 5\<rparr> ! k) = trim c \<and>
                 date (rows \<lparr>rows = sampleRows[1 := tramRow], lastID = 5\<rparr> ! k) = dt) \<and>
              (of_int (ident (rows (startup emptyDb) ! k)) \<noteq> i \<longrightarrow>
                 rows \<lparr>rows = sampleRows[1 := tramRow], lastID = 5\<rparr> ! k = rows (startup emptyDb) ! k)))"
  using put_replaces_fields[OF put_tram] put_tram by simp

lemma changes_0: "changes i rs = 0 \<longleftrightarrow> \<not> list_ex (hasId i) rs"
  by (auto simp: changes_def list_ex_iff filter_empty_conv)

lemma find_updateRows:
  assumes "list_ex (hasId i) rs"
  shows "\<exists>r. find (hasId i) (updateRows d a c dt i rs) = Some r \<and> hasId i r \<and>
           description r = d \<and> amount r = a \<and> category r = c \<and> date r = dt"
  using assms by (induction rs) (auto simp: updateRows_def hasId_def)

lemma ex99: "(99::rat) \<noteq> 0 \<and> \<not> list_ex (hasId 99) (rows (startup emptyDb))"
  by (simp add: startup_emptyDb sampleRows_def hasId_def)

lemma ex2: "(2::rat) \<noteq> 0 \<and> list_ex (hasId 2) (rows (startup emptyDb))"
  by (simp add: startup_emptyDb sampleRows_def hasId_def)

lemma tram_fields: "validateExpense (Some tram) = None \<and> p_description tram = Text '' Tram '' \<and>
   p_amount tram = Some 3 \<and> p_category tram = Text ''Transport'' \<and> p_date tram = Some ''2025-07-12''"
  by (simp add: validate_tram) (simp add: tram_def)

lemma blank_invalid: "validateExpense (Some blank) = Some ''Description required''"
  by (simp add: validateExpense_def blank_def)

text \<open>
  Claim C8 as stated fails: an id that names no row does not always give NotFound. The id 0
  (like an id that is no number) is answered 400 \<open>Invalid id\<close> by both handlers, and an
  update whose payload fails validation is answered 400 before the table is looked at.
\<close>

theorem not_found_counterexample:
  "\<not> list_ex (hasId 0) (rows (startup emptyDb)) \<and>
   deleteExpense (Some 0) (startup emptyDb) = (startup emptyDb, Inl (BadRequest ''Invalid id'')) \<and>
   \<not> list_ex (hasId 99) (rows (startup emptyDb)) \<and>
   putExpense (Some 99) (Some blank) (startup emptyDb) =
     (startup emptyDb, Inl (BadRequest ''Description required''))"
  by (simp add: startup_emptyDb sampleRows_def hasId_def deleteExpense_def putExpense_def
      validateExpense_def blank_def)

text \<open>
  Claim C8, amended. An id that is no number or is 0 is answered 400 \<open>Invalid id\<close> by
  update and by delete, whatever the payload. An update with a nonzero id whose payload
  fails validation is answered 400 with the message of \<open>validateExpense\<close>, whether or not
  the id names a row. For a nonzero id that names no row, delete answers NotFound, and
  so does an update whose payload passes validation with a text description and
  category. Whenever update or delete answers an error, the table is unchanged. For a
  nonzero id that names a row, delete removes the rows with that id and reports
  success, and an update with a valid payload answers with the updated row.
\<close>

theorem update_delete_by_id:
  "putExpense None body t = (t, Inl (BadRequest ''Invalid id'')) \<and>
   putExpense (Some 0) body t = (t, Inl (BadRequest ''Invalid id'')) \<and>
   deleteExpense None t = (t, Inl (BadRequest ''Invalid id'')) \<and>
   deleteExpense (Some 0) t = (t, Inl (BadRequest ''Invalid id'')) \<and>
   (k \<noteq> 0 \<and> validateExpense body = Some msg \<longrightarrow> putExpense (Some k) body t = (t, Inl (BadRequest msg))) \<and>
   (i \<noteq> 0 \<and> \<not> list_ex (hasId i) (rows t) \<longrightarrow>
      deleteExpense (Some i) t = (t, Inl NotFound) \<and>
      (validateExpense (Some p) = None \<and> p_description p = Text d \<and> p_category p = Text c \<longrightarrow>
         putExpense (Some i) (Some p) t = (t, Inl NotFound))) \<and>
   (putExpense idParam body t = (t1, Inl e1) \<longrightarrow> t1 = t) \<and>
   (deleteExpense idParam t = (t2, Inl e2) \<longrightarrow> t2 = t) \<and>
   (j \<noteq> 0 \<and> list_ex (hasId j) (rows t) \<longrightarrow>
      deleteExpense (Some j) t = (t\<lparr>rows := filter (\<lambda>r. \<not> hasId j r) (rows t)\<rparr>, Inr True) \<and>
      (validateExpense (Some p) = None \<and> p_description p = Text d \<and> p_amount p = Some a \<and>
       p_category p = Text c \<and> p_date p = Some dt \<longrightarrow>
         (\<exists>t' r. putExpense (Some j) (Some p) t = (t', Inr (Some r)) \<and> hasId j r \<and>
            description r = trim d \<and> amount r = a \<and> category r = trim c \<and> date r = dt)))"
proof (intro conjI impI)
  show "putExpense None body t = (t, Inl (BadRequest ''Invalid id''))"
    "putExpense (Some 0) body t = (t, Inl (BadRequest ''Invalid id''))"
    by (simp_all add: putExpense_def)
  show "deleteExpense None t = (t, Inl (BadRequest ''Invalid id''))"
    "deleteExpense (Some 0) t = (t, Inl (BadRequest ''Invalid id''))"
    by (simp_all add: deleteExpense_def)
next
  assume "k \<noteq> 0 \<and> validateExpense body = Some msg"
  then show "putExpense (Some k) body t = (t, Inl (BadRequest msg))"
    by (simp add: putExpense_def)
next
  assume h: "i \<noteq> 0 \<and> \<not> list_ex (hasId i) (rows t)"
  then show "deleteExpense (Some i) t = (t, Inl NotFound)"
    by (simp add: deleteExpense_def changes_0)
  assume v: "validateExpense (Some p) = None \<and> p_description p = Text d \<and> p_category p = Text c"
  then have "\<exists>a dt. p_amount p = Some a \<and> p_date p = Some dt"
    by (auto simp: validateExpense_def split: option.splits if_splits)
  then show "putExpense (Some i) (Some p) t = (t, Inl NotFound)"
    using h v by (auto simp: putExpense_def changes_0)
next
  assume "putExpense idParam body t = (t1, Inl e1)"
  then show "t1 = t" by (rule putExpense_Inl)
next
  assume "deleteExpense idParam t = (t2, Inl e2)"
  then show "t2 = t" by (rule deleteExpense_Inl)
next
  assume h: "j \<noteq> 0 \<and> list_ex (hasId j) (rows t)"
  then show "deleteExpense (Some j) t = (t\<lparr>rows := filter (\<lambda>r. \<not> hasId j r) (rows t)\<rparr>, Inr True)"
    by (simp add: deleteExpense_def changes_0)
  assume v: "validateExpense (Some p) = None \<and> p_description p = Text d \<and> p_amount p = Some a \<and>
       p_category p = Text c \<and> p_date p = Some dt"
  from find_updateRows[of j "rows t" "trim d" a "trim c" dt] h
  obtain r where r: "find (hasId j) (updateRows (trim d) a (trim c) dt j (rows t)) = Some r"
    "hasId j r" "description r = trim d" "amount r = a" "category r = trim c" "date r = dt"
    by blast
  have "putExpense (Some j) (Some p) t =
          (t\<lparr>rows := updateRows (trim d) a (trim c) dt j (rows t)\<rparr>, Inr (Some r))"
    using h v r(1) by (simp add: putExpense_def changes_0 Let_def)
  then show "\<exists>t' r. putExpense (Some j) (Some p) t = (t', Inr (Some r)) \<and> hasId j r \<and>
            description r = trim d \<and> amount r = a \<and> category r = trim c \<and> date r = dt"
    using r by blast
qed

theorem update_delete_by_id_witness:
  "putExpense None (Some blank) (startup emptyDb) = (startup emptyDb, Inl (BadRequest ''Invalid id'')) \<and>
   putExpense (Some 0) (Some blank) (startup emptyDb) = (startup emptyDb, Inl (BadRequest ''Invalid id'')) \<and>
   deleteExpense None (startup emptyDb) = (startup emptyDb, Inl (BadRequest ''Invalid id'')) \<and>
   deleteExpense (Some 0) (startup emptyDb) = (startup emptyDb, Inl (BadRequest ''Invalid id'')) \<and>
   ((2::rat) \<noteq> 0 \<and> validateExpense (Some blank) = Some ''Description required'') \<and>
   putExpense (Some 2) (Some blank) (startup emptyDb) =
     (startup emptyDb, Inl (BadRequest ''Description required'')) \<and>
   ((99::rat) \<noteq> 0 \<and> \<not> list_ex (hasId 99) (rows (startup emptyDb))) \<and>
   deleteExpense (Some 99) (startup emptyDb) = (startup emptyDb, Inl NotFound) \<and>
   (validateExpense (Some tram) = None \<and> p_description tram = Text '' Tram '' \<and>
    p_amount tram = Some 3 \<and> p_category tram = Text ''Transport'' \<and> p_date tram = Some ''2025-07-12'') \<and>
   putExpense (Some 99) (Some tram) (startup emptyDb) = (startup emptyDb, Inl NotFound) \<and>
   ((2::rat) \<noteq> 0 \<and> list_ex (hasId 2) (rows (startup emptyDb))) \<and>
   deleteExpense (Some 2) (startup emptyDb) =
     ((startup emptyDb)\<lparr>rows := filter (\<lambda>r. \<not> hasId 2 r) (rows (startup emptyDb))\<rparr>, Inr True) \<and>
   (\<exists>t' r. putExpense (Some 2) (Some tram) (startup emptyDb) = (t', Inr (Some r)) \<and> hasId 2 r \<and>
      description r = trim '' Tram '' \<and> amount r = 3 \<and> category r = trim ''Transport'' \<and>
      date r = ''2025-07-12'')"
  using update_delete_by_id[where body = "Some blank" and t = "startup emptyDb" and k = 2
          and msg = "''Description required''" and i = 99 and p = tram and d = "'' Tram ''"
          and c = "''Transport''" and idParam = "Some 2"
          and ?t1.0 = "startup emptyDb" and ?e1.0 = "BadRequest ''Description required''"
          and ?t2.0 = "startup emptyDb" and ?e2.0 = NotFound
          and j = 2 and a = 3 and dt = "''2025-07-12''"]
        ex99 ex2 tram_fields blank_invalid
  by simp

section \<open>Listing\<close>

lemma param_all: "list_all (\<lambda>f. f r) (param v g) \<longleftrightarrow> (\<forall>x. v = Some x \<and> x \<noteq> [] \<longrightarrow> g x r)"
  by (cases v) auto

lemma sorted_orderByDateIdDesc:
  "sorted_wrt (\<lambda>a b. date a > date b \<or> (date a = date b \<and> ident a \<ge> ident b)) (orderByDateIdDesc rs)"
proof -
  have "sorted (map (\<lambda>r. (date r, ident r)) (sort_key (\<lambda>r. (date r, ident r)) rs))"
    by (rule sorted_sort_key)
  then have "sorted_wrt (\<lambda>a b. (date a, ident a) \<le> (date b, ident b)) (sort_key (\<lambda>r. (date r, ident r)) rs)"
    by (simp add: sorted_map)
  then have "sorted_wrt (\<lambda>a b. (date b, ident b) \<le> (date a, ident a)) (orderByDateIdDesc rs)"
    by (simp add: orderByDateIdDesc_def sorted_wrt_rev)
  then show ?thesis
    by (rule sorted_wrt_mono_rel[rotated]) (auto simp: less_eq_prod_def)
qed

lemma mset_orderByDateIdDesc: "mset (orderByDateIdDesc rs) = mset rs"
  by (simp add: orderByDateIdDesc_def)

lemma list_food: "listExpenses foodQuery (startup emptyDb) = [sampleRows ! 4, sampleRows ! 0]"
  by (simp add: listExpenses_def foodQuery_def startup_emptyDb sampleRows_def orderByDateIdDesc_def)

text \<open>
  Claim C10. \<^verbatim>\<open>GET /api/expenses\<close> answers the rows ordered by date descending and, for
  equal dates, by id descending. They are exactly the rows of the table (each once) whose
  category equals the \<open>category\<close> parameter when one is given, character by character,
  and whose date is at least \<open>start\<close> and at most \<open>end\<close> when these are given (a
  parameter that is the empty string counts as not given).
\<close>

theorem list_sorted_filtered:
  "sorted_wrt (\<lambda>a b. date a > date b \<or> (date a = date b \<and> ident a \<ge> ident b)) (listExpenses q t) \<and>
   mset (listExpenses q t) =
     mset (filter (\<lambda>r. (\<forall>c. q_category q = Some c \<and> c \<noteq> [] \<longrightarrow> category r = c) \<and>
                        (\<forall>s. q_start q = Some s \<and> s \<noteq> [] \<longrightarrow> s \<le> date r) \<and>
                        (\<forall>e. q_end q = Some e \<and> e \<noteq> [] \<longrightarrow> date r \<le> e)) (rows t))"
  by (simp add: listExpenses_def Let_def sorted_orderByDateIdDesc mset_orderByDateIdDesc param_all)

theorem list_sorted_filtered_witness:
  "(q_category foodQuery = Some ''Food'' \<and> ''Food'' \<noteq> []) \<and>
   (q_start foodQuery = Some ''2025-07-01'' \<and> ''2025-07-01'' \<noteq> []) \<and>
   (q_end foodQuery = Some ''2025-08-31'' \<and> ''2025-08-31'' \<noteq> []) \<and>
   listExpenses foodQuery (startup emptyDb) = [sampleRows ! 4, sampleRows ! 0] \<and>
   mset [sampleRows ! 4, sampleRows ! 0] =
     mset (filter (\<lambda>r. category r = ''Food'' \<and> ''2025-07-01'' \<le> date r \<and> date r \<le> ''2025-08-31'')
            (rows (startup emptyDb)))"
  using list_sorted_filtered[of foodQuery "startup emptyDb"] list_food
  by (simp add: foodQuery_def)

section \<open>The largest expenses\<close>

lemma topExpenses_take: "topExpenses nMatch t = take (case nMatch of None \<Rightarrow> 5 | Some k \<Rightarrow> min 50 k) (orderByAmountDesc (rows t))"
  by (simp add: topExpenses_def Let_def)

lemma sorted_orderByAmountDesc: "sorted_wrt (\<lambda>a b. amount a \<ge> amount b) (orderByAmountDesc rs)"
proof -
  have "sorted (map (\<lambda>r. - amount r) (sort_key (\<lambda>r. - amount r) rs))"
    by (rule sorted_sort_key)
  then show ?thesis
    by (simp add: sorted_map orderByAmountDesc_def)
qed

lemma mset_orderByAmountDesc: "mset (orderByAmountDesc rs) = mset rs"
  by (simp add: orderByAmountDesc_def)

lemma length_orderByAmountDesc: "length (orderByAmountDesc rs) = length rs"
  by (simp add: orderByAmountDesc_def)

lemma length_topExpenses:
  "length (topExpenses nMatch t) = min (case nMatch of None \<Rightarrow> 5 | Some k \<Rightarrow> min 50 k) (length (rows t))"
  by (simp add: topExpenses_take length_orderByAmountDesc min.commute)

lemma length_manyDb: "length (rows (manyDb n)) = n"
  by (simp add: manyDb_def manyRows_def)

lemma top_sample: "topExpenses (Some 100) (startup emptyDb) = [sampleRows ! 2, sampleRows ! 0, sampleRows ! 3, sampleRows ! 4, sampleRows ! 1]"
  by (simp add: topExpenses_def startup_emptyDb sampleRows_def orderByAmountDesc_def)

lemma top_three: "topExpenses (Some 3) (startup emptyDb) = [sampleRows ! 2, sampleRows ! 0, sampleRows ! 3]"
  by (simp add: topExpenses_def startup_emptyDb sampleRows_def orderByAmountDesc_def)

text \<open>
  Claim C5 as stated fails. The statement orders by amount alone: two rows of the same
  amount come back oldest first here, not most recent first (whatever order the engine
  gives rows of equal amount, it does not look at the date). And the number of rows is
  capped at 50: asking for 60 of 60 rows gives 50.
\<close>

theorem top_ties_counterexample:
  "topExpenses (Some 2) tiedDb =
     [\<lparr>ident = 1, description = ''Lunch'', amount = 20, category = ''Food'', date = ''2025-01-01''\<rparr>,
      \<lparr>ident = 2, description = ''Dinner'', amount = 20, category = ''Food'', date = ''2025-02-01''\<rparr>] \<and>
   (''2025-01-01'' :: string) < ''2025-02-01'' \<and>
   length (rows (manyDb 60)) = 60 \<and> length (topExpenses (Some 60) (manyDb 60)) = 50"
  by (simp add: length_topExpenses length_manyDb)
     (simp add: topExpenses_def tiedDb_def insertRow_def emptyDb_def orderByAmountDesc_def Let_def)

text \<open>
  Claim C5, amended. The \<open>top\<close> branch answers \<open>min (min 50 n) |rows|\<close> rows (\<open>n = 5\<close>
  when the message names no number), in descending order of amount, and they are largest:
  together with the rows left out they make up the table, and no row left out has a
  larger amount than a row answered. Nothing is said of the order of rows of equal amount.
\<close>

theorem top_by_amount:
  "length (topExpenses nMatch t) = min (case nMatch of None \<Rightarrow> 5 | Some k \<Rightarrow> min 50 k) (length (rows t)) \<and>
   sorted_wrt (\<lambda>a b. amount a \<ge> amount b) (topExpenses nMatch t) \<and>
   (\<exists>rest. mset (topExpenses nMatch t @ rest) = mset (rows t) \<and>
           (\<forall>x \<in> set (topExpenses nMatch t). \<forall>y \<in> set rest. amount x \<ge> amount y))"
proof -
  let ?n = "case nMatch of None \<Rightarrow> 5 | Some k \<Rightarrow> min 50 k"
  let ?s = "orderByAmountDesc (rows t)"
  have s: "sorted_wrt (\<lambda>a b. amount a \<ge> amount b) (take ?n ?s @ drop ?n ?s)"
    using sorted_orderByAmountDesc[of "rows t"] by simp
  then have 1: "sorted_wrt (\<lambda>a b. amount a \<ge> amount b) (take ?n ?s)"
    and 2: "\<forall>x \<in> set (take ?n ?s). \<forall>y \<in> set (drop ?n ?s). amount x \<ge> amount y"
    unfolding sorted_wrt_append by blast+
  have 3: "mset (take ?n ?s @ drop ?n ?s) = mset (rows t)"
    by (simp add: mset_orderByAmountDesc)
  show ?thesis
    unfolding topExpenses_take using 1 2 3 length_topExpenses[of nMatch t, unfolded topExpenses_take]
    by blast
qed

theorem top_by_amount_witness:
  "topExpenses (Some 3) (startup emptyDb) = [sampleRows ! 2, sampleRows ! 0, sampleRows ! 3] \<and>
   length (topExpenses (Some 3) (startup emptyDb)) = min (min 50 3) (length (rows (startup emptyDb))) \<and>
   sorted_wrt (\<lambda>a b. amount a \<ge> amount b) (topExpenses (Some 3) (startup emptyDb))"
  using top_by_amount[of "Some 3" "startup emptyDb"] top_three
  by simp

text \<open>
  Claim C6 as stated fails: with 51 rows, asking for the top 51 does not give all of them
  in order, since the request is cut down to 50.
\<close>

theorem top_limit_counterexample:
  "length (rows (manyDb 51)) \<le> 51 \<and> topExpenses (Some 51) (manyDb 51) \<noteq> orderByAmountDesc (rows (manyDb 51)) \<and>
   length (topExpenses (Some 51) (manyDb 51)) = 50 \<and> length (rows (manyDb 51)) = 51"
proof -
  have "length (topExpenses (Some 51) (manyDb 51)) = 50"
    by (simp add: length_topExpenses length_manyDb)
  moreover have "length (orderByAmountDesc (rows (manyDb 51))) = 51"
    by (simp add: length_orderByAmountDesc length_manyDb)
  ultimately show ?thesis
    by (auto simp: length_manyDb)
qed

text \<open>
  Claim C6, amended. Asking for the top 0 gives no row; asking for at least as many rows
  as the table holds gives the whole table in descending order of amount, provided the
  table holds at most 50 rows.
\<close>

theorem top_limit:
  "topExpenses (Some 0) t = [] \<and>
   (length (rows t) \<le> k \<and> length (rows t) \<le> 50 \<longrightarrow>
      topExpenses (Some k) t = orderByAmountDesc (rows t) \<and>
      mset (topExpenses (Some k) t) = mset (rows t) \<and>
      sorted_wrt (\<lambda>a b. amount a \<ge> amount b) (topExpenses (Some k) t))"
  by (simp add: topExpenses_take length_orderByAmountDesc mset_orderByAmountDesc sorted_orderByAmountDesc)

theorem top_limit_witness:
  "(length (rows (startup emptyDb)) \<le> 100 \<and> length (rows (startup emptyDb)) \<le> 50) \<and>
   topExpenses (Some 100) (startup emptyDb) = [sampleRows ! 2, sampleRows ! 0, sampleRows ! 3, sampleRows ! 4, sampleRows ! 1] \<and>
   topExpenses (Some 100) (startup emptyDb) = orderByAmountDesc (rows (startup emptyDb)) \<and>
   topExpenses (Some 0) (startup emptyDb) = []"
  using top_limit[of "startup emptyDb" 100] top_sample
  by (simp add: startup_emptyDb sampleRows_def)

section \<open>Positive amounts\<close>

text \<open>
  The handlers that go through \<open>validateExpense\<close> keep every amount positive, and so does
  start-up.
\<close>

lemma Number_0: "Number ''0'' = Some 0"
  by (simp add: Number_def isDigit_def decimalValue_def digitValue_def round64_def)

lemma validate_amount: "validateExpense (Some p) = None \<Longrightarrow> p_amount p = Some a \<Longrightarrow> a > 0"
  by (auto simp: validateExpense_def split: if_splits)

lemma startup_positive: "positiveAmounts (startup emptyDb)"
  by (simp add: positiveAmounts_def startup_emptyDb sampleRows_def)

lemma post_positive: "positiveAmounts t \<Longrightarrow> positiveAmounts (fst (postExpense body t))"
  by (auto simp: postExpense_def positiveAmounts_def insertRow_def Let_def list_all_iff
      dest: validate_amount split: option.splits field.splits prod.splits)

lemma put_positive: "positiveAmounts t \<Longrightarrow> positiveAmounts (fst (putExpense idParam body t))"
  by (auto simp: putExpense_def positiveAmounts_def updateRows_def Let_def list_all_iff
      dest: validate_amount split: option.splits field.splits prod.splits if_splits)

lemma delete_positive: "positiveAmounts t \<Longrightarrow> positiveAmounts (fst (deleteExpense idParam t))"
  by (auto simp: deleteExpense_def positiveAmounts_def list_all_iff split: option.splits)

lemma chatbot_not_positive: "\<not> positiveAmounts (fst (chatbotAddExpense ''lunch'' ''0'' ''food'' ''2025-08-09'' (startup emptyDb)))"
  by (simp add: chatbotAddExpense_def Number_0 startup_emptyDb insertRow_def Let_def positiveAmounts_def)


text \<open>
  Claim C7 does not hold of the add-expense command of \<^verbatim>\<open>/api/chatbot\<close>: it inserts the
  groups of its pattern without \<open>validateExpense\<close>, and \<^verbatim>\<open>[\d\.]+\<close> matches \<^verbatim>\<open>0\<close>. On the
  table as seeded, the command with amount \<^verbatim>\<open>0\<close> adds row 6 with amount 0.
\<close>

theorem chatbot_add_zero_amount:
  "chatbotAddExpense ''lunch'' ''0'' ''food'' ''2025-08-09'' (startup emptyDb) =
     (\<lparr>rows = sampleRows @
        [\<lparr>ident = 6, description = ''lunch'', amount = 0, category = ''food'', date = ''2025-08-09''\<rparr>],
       lastID = 6\<rparr>, None)"
  by (simp add: chatbotAddExpense_def Number_0 startup_emptyDb insertRow_def trim_def isSpace_def Let_def)

section \<open>Rounding\<close>

lemma powi_pos: "(0::rat) < 2 powi k"
  by (simp add: power_int_def)

lemma expo_le:
  assumes "0 < y"
  shows "2 powi (expo y) \<le> y"
proof -
  obtain p q where pq: "quotient_of y = (p, q)" by (cases "quotient_of y")
  then have q: "0 < q" and y: "y = of_int p / of_int q"
    using quotient_of_denom_pos quotient_of_div by auto
  with assms have p: "0 < p"
    by (simp add: zero_less_divide_iff)
  let ?k = "bitlen p - bitlen q"
  show ?thesis
  proof (cases "2 powi ?k \<le> y")
    case True
    then show ?thesis by (simp add: expo_def pq)
  next
    case False
    have bp: "2 ^ nat (bitlen p - 1) \<le> p" using bitlen_bounds[OF p] by simp
    have bq: "q < 2 ^ nat (bitlen q)" using bitlen_bounds[OF q] by simp
    have bl: "0 < bitlen p" "0 < bitlen q"
      using p q bitlen_eq_zero_iff[of p] bitlen_eq_zero_iff[of q] bitlen_nonneg[of p] bitlen_nonneg[of q]
      by linarith+
    have "(2::rat) powi (?k - 1) = 2 powi (bitlen p - 1) / 2 powi (bitlen q)"
      by (simp add: power_int_diff)
    also have "\<dots> = 2 ^ nat (bitlen p - 1) / 2 ^ nat (bitlen q)"
      using bl by (simp add: power_int_def)
    also have "\<dots> \<le> of_int p / 2 ^ nat (bitlen q)"
    proof -
      have "(of_int (2 ^ nat (bitlen p - 1)) :: rat) \<le> of_int p"
        using bp by (simp only: of_int_le_iff)
      then have "(2::rat) ^ nat (bitlen p - 1) \<le> of_int p"
        by simp
      then show ?thesis by (simp add: divide_right_mono)
    qed
    also have "\<dots> \<le> of_int p / of_int q"
    proof -
      have "(of_int q :: rat) \<le> of_int (2 ^ nat (bitlen q))"
        using bq by (simp only: of_int_le_iff)
      then have "(of_int q :: rat) \<le> 2 ^ nat (bitlen q)" by simp
      then show ?thesis using p q by (simp add: frac_le)
    qed
    finally have "2 powi (?k - 1) \<le> y" by (simp add: y)
    then show ?thesis using False by (simp add: expo_def pq)
  qed
qed


lemma roundHalfEven_ge_floor: "\<lfloor>q\<rfloor> \<le> roundHalfEven q"
  by (simp add: roundHalfEven_def Let_def)

lemma round64_pos:
  assumes "0 < x"
  shows "0 < round64 x"
proof -
  let ?ulp = "(2::rat) powi (expo \<bar>x\<bar> - 52)"
  have u: "0 < ?ulp" by (rule powi_pos)
  have ax: "\<bar>x\<bar> = x" using assms by simp
  have le: "2 powi (expo x) \<le> x" using expo_le[OF assms] .
  have a: "1 \<le> x / 2 powi (expo x)"
    using le powi_pos[of "expo x"] by (simp add: le_divide_eq)
  have b: "x / ?ulp = (x / 2 powi (expo x)) * 2 ^ 52"
    by (simp add: ax power_int_diff)
  have nn: "0 \<le> x / 2 powi (expo x)" using a by linarith
  have "1 * 1 \<le> (x / 2 powi (expo x)) * 2 ^ 52"
    by (rule mult_mono[OF a _ nn]) simp_all
  then have "1 \<le> x / ?ulp" by (simp only: b mult_1)
  then have "1 \<le> \<lfloor>x / ?ulp\<rfloor>" by simp
  then have "1 \<le> roundHalfEven (x / ?ulp)"
    using roundHalfEven_ge_floor[of "x / ?ulp"] by linarith
  then have m: "0 < (of_int (roundHalfEven (x / ?ulp)) :: rat)" by simp
  have "round64 x = of_int (roundHalfEven (x / ?ulp)) * ?ulp"
    using assms by (simp add: round64_def Let_def)
  then show ?thesis using m u by simp
qed

lemma round64_minus: "round64 (- x) = - round64 x"
  by (simp add: round64_def Let_def)

lemma round64_le_0_iff: "round64 x \<le> 0 \<longleftrightarrow> x \<le> 0"
proof (cases "x = 0")
  case True then show ?thesis by (simp add: round64_def)
next
  case False
  show ?thesis
  proof (cases "0 < x")
    case True
    then show ?thesis using round64_pos[OF True] by simp
  next
    case f: False
    then have "0 < - x" using False by simp
    from round64_pos[OF this] show ?thesis using f by (simp add: round64_minus)
  qed
qed

text \<open>
  \<open>expo\<close> is the binary exponent, and \<open>round64 x\<close> is within half a unit in the last
  place of \<open>x\<close>.
\<close>

lemma expo_gt:
  assumes "0 < y"
  shows "y < 2 powi (expo y + 1)"
proof -
  obtain p q where pq: "quotient_of y = (p, q)" by (cases "quotient_of y")
  then have q: "0 < q" and y: "y = of_int p / of_int q"
    using quotient_of_denom_pos quotient_of_div by auto
  with assms have p: "0 < p"
    by (simp add: zero_less_divide_iff)
  let ?k = "bitlen p - bitlen q"
  show ?thesis
  proof (cases "2 powi ?k \<le> y")
    case False
    then show ?thesis by (simp add: expo_def pq)
  next
    case True
    have bp: "p < 2 ^ nat (bitlen p)" using bitlen_bounds[OF p] by simp
    have bq: "2 ^ nat (bitlen q - 1) \<le> q" using bitlen_bounds[OF q] by simp
    have bl: "0 < bitlen p" "0 < bitlen q"
      using p q bitlen_eq_zero_iff[of p] bitlen_eq_zero_iff[of q] bitlen_nonneg[of p] bitlen_nonneg[of q]
      by linarith+
    have q': "(2::rat) ^ nat (bitlen q - 1) \<le> of_int q"
    proof -
      have "(of_int (2 ^ nat (bitlen q - 1)) :: rat) \<le> of_int q"
        using bq by (simp only: of_int_le_iff)
      then show ?thesis by simp
    qed
    have p': "(of_int p :: rat) < 2 ^ nat (bitlen p)"
    proof -
      have "(of_int p :: rat) < of_int (2 ^ nat (bitlen p))"
        using bp by (simp only: of_int_less_iff)
      then show ?thesis by simp
    qed
    have "of_int p / of_int q < (2::rat) ^ nat (bitlen p) / of_int q"
      using p' q by (simp add: divide_strict_right_mono)
    also have "\<dots> \<le> 2 ^ nat (bitlen p) / 2 ^ nat (bitlen q - 1)"
      using q' by (simp add: frac_le)
    also have "\<dots> = 2 powi (bitlen p) / 2 powi (bitlen q - 1)"
      using bl by (simp add: power_int_def)
    also have "\<dots> = 2 powi (?k + 1)"
      by (simp add: power_int_diff power_int_add)
    finally have "y < 2 powi (?k + 1)" by (simp add: y)
    then show ?thesis using True by (simp add: expo_def pq)
  qed
qed

lemma roundHalfEven_near: "\<bar>of_int (roundHalfEven q) - q\<bar> \<le> 1 / 2"
proof -
  have "of_int \<lfloor>q\<rfloor> \<le> q" "q < of_int \<lfloor>q\<rfloor> + 1" by linarith+
  then show ?thesis
    by (auto simp: roundHalfEven_def Let_def abs_le_iff)
qed

lemma round64_near_pos:
  assumes "0 < x"
  shows "\<bar>round64 x - x\<bar> \<le> 2 powi (expo \<bar>x\<bar> - 53)"
proof -
  let ?ulp = "(2::rat) powi (expo \<bar>x\<bar> - 52)"
  let ?m = "roundHalfEven (\<bar>x\<bar> / ?ulp)"
  have u: "0 < ?ulp" by (simp add: power_int_def)
  have ax: "\<bar>x\<bar> = x" using assms by simp
  have r: "round64 x = of_int ?m * ?ulp"
    using assms by (simp add: round64_def Let_def)
  have "of_int ?m * ?ulp - x = (of_int ?m - x / ?ulp) * ?ulp"
    using u by (simp add: left_diff_distrib)
  then have "\<bar>round64 x - x\<bar> = \<bar>of_int ?m - x / ?ulp\<bar> * ?ulp"
    using u by (simp only: r abs_mult abs_of_pos)
  also have "\<dots> \<le> (1 / 2) * ?ulp"
    using roundHalfEven_near[of "\<bar>x\<bar> / ?ulp"] u
    by (intro mult_right_mono) (simp_all only: ax less_imp_le)
  also have "\<dots> = 2 powi (expo \<bar>x\<bar> - 53)"
    by (simp add: power_int_diff)
  finally show ?thesis .
qed

lemma round64_near: "\<bar>round64 x - x\<bar> \<le> 2 powi (expo \<bar>x\<bar> - 53)"
proof -
  consider "x = 0" | "0 < x" | "0 < - x" by linarith
  then show ?thesis
  proof cases
    case 1
    then show ?thesis by (simp add: round64_def power_int_def)
  next
    case 2
    then show ?thesis by (rule round64_near_pos)
  next
    case 3
    have "round64 (- x) = - round64 x" by (simp add: round64_def Let_def)
    then have "\<bar>round64 x - x\<bar> = \<bar>round64 (- x) - (- x)\<bar>" by simp
    then show ?thesis using round64_near_pos[OF 3] by simp
  qed
qed

lemma insertBy_insort:
  "insertBy (\<lambda>a b. jsSub (snd b) (snd a)) x ys = insort_key (\<lambda>p. - snd p) x ys"
  by (induction ys) (auto simp: jsSub_def round64_le_0_iff)

lemma sortBy_sort_key: "sortBy (\<lambda>a b. jsSub (snd b) (snd a)) xs = sort_key (\<lambda>p. - snd p) xs"
  by (induction xs) (simp_all add: sortBy_def insertBy_insort)

section \<open>Sums of doubles\<close>

text \<open>
  When every number of a list and every running sum of it is a double, no addition
  rounds and no error is left to compensate: both ways of adding give the exact sum.
\<close>

lemma plain_exact_gen:
  "\<forall>n \<le> length xs. representable (a + sum_list (take n xs)) \<Longrightarrow> foldl jsAdd a xs = a + sum_list xs"
proof (induction xs arbitrary: a)
  case Nil
  then show ?case by simp
next
  case (Cons x xs)
  from Cons.prems[rule_format, of 1] have e: "jsAdd a x = a + x"
    by (simp add: representable_def jsAdd_def)
  have "\<forall>n \<le> length xs. representable ((a + x) + sum_list (take n xs))"
  proof (intro allI impI)
    fix n assume "n \<le> length xs"
    then have "Suc n \<le> length (x # xs)" by simp
    from Cons.prems[rule_format, OF this] show "representable ((a + x) + sum_list (take n xs))"
      by (simp add: add.assoc)
  qed
  from Cons.IH[OF this] show ?case by (simp add: e add.assoc)
qed

lemma exactRun_prefix: "exactRun xs \<Longrightarrow> n \<le> length xs \<Longrightarrow> representable (sum_list (take n xs))"
  by (cases "n = length xs") (auto simp: exactRun_def list_all_iff)

lemma exactRun_elem: "exactRun xs \<Longrightarrow> x \<in> set xs \<Longrightarrow> representable x"
  by (simp add: exactRun_def list_all_iff)

lemma plain_exact: "exactRun xs \<Longrightarrow> addDoubles Plain xs = sum_list xs"
  using plain_exact_gen[of xs 0] exactRun_prefix[of xs] by simp

lemma kbnStep_exact:
  assumes "representable s" "representable r" "representable (s + r)"
  shows "kbnStep (s, 0) r = (s + r, 0)"
proof -
  have t: "jsAdd s r = s + r" using assms(3) by (simp add: representable_def jsAdd_def)
  have a: "jsSub s (s + r) = - r"
    using assms(2) by (simp add: jsSub_def representable_def round64_minus)
  have b: "jsSub r (s + r) = - s"
    using assms(1) by (simp add: jsSub_def representable_def round64_minus)
  have c: "jsAdd (- r) r = 0" "jsAdd (- s) s = 0" "jsAdd 0 0 = 0"
    by (simp_all add: jsAdd_def round64_def)
  show ?thesis
    by (simp add: kbnStep_def Let_def t a b c)
qed

lemma kbn_exact_gen:
  "representable a \<Longrightarrow> \<forall>x \<in> set xs. representable x \<Longrightarrow>
   \<forall>n \<le> length xs. representable (a + sum_list (take n xs)) \<Longrightarrow>
   foldl kbnStep (a, 0) xs = (a + sum_list xs, 0)"
proof (induction xs arbitrary: a)
  case Nil
  then show ?case by simp
next
  case (Cons x xs)
  have rx: "representable x" using Cons.prems(2) by simp
  from Cons.prems(3)[rule_format, of 1] have rs: "representable (a + x)" by simp
  have h: "\<forall>n \<le> length xs. representable ((a + x) + sum_list (take n xs))"
  proof (intro allI impI)
    fix n assume "n \<le> length xs"
    then have "Suc n \<le> length (x # xs)" by simp
    from Cons.prems(3)[rule_format, OF this] show "representable ((a + x) + sum_list (take n xs))"
      by (simp add: add.assoc)
  qed
  have "foldl kbnStep (a + x, 0) xs = ((a + x) + sum_list xs, 0)"
    using Cons.prems(2) by (intro Cons.IH[OF rs _ h]) simp
  then show ?case
    by (simp add: kbnStep_exact[OF Cons.prems(1) rx rs] add.assoc)
qed

lemma representable_0: "representable 0"
  by (simp add: representable_def round64_def)

lemma kbn_exact: "exactRun xs \<Longrightarrow> addDoubles Compensated xs = sum_list xs"
proof -
  assume e: "exactRun xs"
  have "foldl kbnStep (0, 0) xs = (0 + sum_list xs, 0)"
    using e exactRun_prefix[OF e] exactRun_elem[OF e] representable_0
    by (intro kbn_exact_gen) simp_all
  moreover have "representable (sum_list xs)"
    using exactRun_prefix[OF e, of "length xs"] by simp
  ultimately show ?thesis
    by (simp add: jsAdd_def representable_def)
qed

lemma addDoubles_exact: "exactRun xs \<Longrightarrow> addDoubles eng xs = sum_list xs"
  by (cases eng) (simp_all only: plain_exact kbn_exact)

lemma addDoubles_Nil: "addDoubles eng [] = 0"
  by (cases eng) (simp_all add: jsAdd_def round64_def)

lemma totalBetween_addDoubles:
  "totalBetween eng s e t = addDoubles eng (map amount (filter (\<lambda>r. s \<le> date r \<and> date r \<le> e) (rows t)))"
  by (simp add: totalBetween_def SUM_amount_def addDoubles_Nil)

section \<open>Totals between two dates\<close>

lemma small_amounts:
  "map amount (filter (\<lambda>r. ''2025-07-01'' \<le> date r \<and> date r \<le> ''2025-07-31'') (rows smallChange)) =
     [3602879701896397 / 36028797018963968, 3602879701896397 / 18014398509481984]"
  by (simp add: smallChange_def insertRow_def emptyDb_def Let_def)

lemma no_september:
  "filter (\<lambda>r. ''2025-09-01'' \<le> date r \<and> date r \<le> ''2025-09-30'') (rows (startup emptyDb)) = []"
  by (simp add: startup_emptyDb sampleRows_def)

lemma july_amounts:
  "map amount (filter (\<lambda>r. ''2025-07-01'' \<le> date r \<and> date r \<le> ''2025-07-31'') (rows (startup emptyDb))) =
     [49 / 2, 11 / 4, 60]"
  by (simp add: startup_emptyDb sampleRows_def)

lemma july_exact: "exactRun [49 / 2, 11 / 4, 60]"
  by code_simp

text \<open>
  Claim C4 as stated fails. The total is the sum that the engine computes with doubles,
  and the additions round: over two rows of one day with the amounts 0.1 and 0.2, each
  of them a double, \<open>totalBetween\<close> gives 0.30000000000000004 with either way of adding,
  which is not the sum of the two amounts.
\<close>

theorem total_rounds_counterexample:
  "map amount (filter (\<lambda>r. ''2025-07-01'' \<le> date r \<and> date r \<le> ''2025-07-31'') (rows smallChange)) =
     [3602879701896397 / 36028797018963968, 3602879701896397 / 18014398509481984] \<and>
   list_all representable [3602879701896397 / 36028797018963968, 3602879701896397 / 18014398509481984] \<and>
   totalBetween Plain ''2025-07-01'' ''2025-07-31'' smallChange = 1351079888211149 / 4503599627370496 \<and>
   totalBetween Compensated ''2025-07-01'' ''2025-07-31'' smallChange = 1351079888211149 / 4503599627370496 \<and>
   sum_list [3602879701896397 / 36028797018963968, 3602879701896397 / 18014398509481984 :: rat] =
     10808639105689191 / 36028797018963968 \<and>
   totalBetween Plain ''2025-07-01'' ''2025-07-31'' smallChange \<noteq>
     sum_list (map amount (filter (\<lambda>r. ''2025-07-01'' \<le> date r \<and> date r \<le> ''2025-07-31'') (rows smallChange))) \<and>
   totalBetween Compensated ''2025-07-01'' ''2025-07-31'' smallChange \<noteq>
     sum_list (map amount (filter (\<lambda>r. ''2025-07-01'' \<le> date r \<and> date r \<le> ''2025-07-31'') (rows smallChange)))"
  by code_simp

text \<open>
  Claim C4, amended. \<open>totalBetween\<close> returns, over the rows whose date satisfies
  \<open>start \<le> date \<le> end\<close> in string order, both ends included, the sum of the amounts as
  the engine adds doubles, in table order (with \<open>Plain\<close>, the running sum from 0 with
  every addition rounded). For \<open>start = end = d\<close> this is the same sum over the rows whose
  date is exactly \<open>d\<close>. When no row matches the result is 0. When every matching amount
  and every running sum of them is a double, the result is the exact sum of the
  matching amounts.
\<close>

theorem totalBetween_doubles:
  "totalBetween eng s e t = addDoubles eng (map amount (filter (\<lambda>r. s \<le> date r \<and> date r \<le> e) (rows t))) \<and>
   totalBetween Plain s e t = foldl jsAdd 0 (map amount (filter (\<lambda>r. s \<le> date r \<and> date r \<le> e) (rows t))) \<and>
   totalBetween eng d d t = addDoubles eng (map amount (filter (\<lambda>r. date r = d) (rows t))) \<and>
   (filter (\<lambda>r. s \<le> date r \<and> date r \<le> e) (rows t) = [] \<longrightarrow> totalBetween eng s e t = 0) \<and>
   (exactRun (map amount (filter (\<lambda>r. s \<le> date r \<and> date r \<le> e) (rows t))) \<longrightarrow>
      totalBetween eng s e t = sum_list (map amount (filter (\<lambda>r. s \<le> date r \<and> date r \<le> e) (rows t))))"
proof -
  have "filter (\<lambda>r. d \<le> date r \<and> date r \<le> d) (rows t) = filter (\<lambda>r. date r = d) (rows t)"
    by (rule filter_cong) auto
  then have b: "totalBetween eng d d t = addDoubles eng (map amount (filter (\<lambda>r. date r = d) (rows t)))"
    by (simp add: totalBetween_addDoubles)
  have c: "filter (\<lambda>r. s \<le> date r \<and> date r \<le> e) (rows t) = [] \<longrightarrow> totalBetween eng s e t = 0"
    by (simp add: totalBetween_addDoubles addDoubles_Nil)
  have p: "totalBetween Plain s e t = foldl jsAdd 0 (map amount (filter (\<lambda>r. s \<le> date r \<and> date r \<le> e) (rows t)))"
    by (simp add: totalBetween_addDoubles)
  show ?thesis
    using totalBetween_addDoubles[of eng s e t] p b c addDoubles_exact[of _ eng] by simp
qed

theorem totalBetween_doubles_witness:
  "filter (\<lambda>r. ''2025-09-01'' \<le> date r \<and> date r \<le> ''2025-09-30'') (rows (startup emptyDb)) = [] \<and>
   totalBetween Compensated ''2025-09-01'' ''2025-09-30'' (startup emptyDb) = 0 \<and>
   exactRun (map amount (filter (\<lambda>r. ''2025-07-01'' \<le> date r \<and> date r \<le> ''2025-07-31'') (rows (startup emptyDb)))) \<and>
   totalBetween Compensated ''2025-07-01'' ''2025-07-31'' (startup emptyDb) = 349 / 4 \<and>
   totalBetween Plain ''2025-07-01'' ''2025-07-31'' (startup emptyDb) = 349 / 4"
  using totalBetween_doubles[of Compensated "''2025-09-01''" "''2025-09-30''" "startup emptyDb" "''2025-07-10''"]
        totalBetween_doubles[of Compensated "''2025-07-01''" "''2025-07-31''" "startup emptyDb" "''2025-07-10''"]
        totalBetween_doubles[of Plain "''2025-07-01''" "''2025-07-31''" "startup emptyDb" "''2025-07-10''"]
        no_september july_amounts july_exact
  by simp

section \<open>Dictionaries\<close>

lemma map_of_setProp: "map_of (setProp ps k v) = (map_of ps)(k \<mapsto> v)"
  by (induction ps) (auto simp: fun_eq_iff)

lemma keys_setProp:
  "map fst (setProp ps k v) = (if k \<in> set (map fst ps) then map fst ps else map fst ps @ [k])"
  by (induction ps) auto

lemma distinct_setProp: "distinct (map fst ps) \<Longrightarrow> distinct (map fst (setProp ps k v))"
  by (simp add: keys_setProp)

lemma get0_setProp: "get0 (setProp ps k v) c = (if c = k then v else get0 ps c)"
  by (simp add: get0_def map_of_setProp)

lemma get0_notin: "k \<notin> set (map fst ps) \<Longrightarrow> get0 ps k = 0"
  by (simp add: get0_def map_of_eq_None_iff[THEN iffD2])

lemma sum_setProp:
  "distinct (map fst ps) \<Longrightarrow> sum_list (map snd (setProp ps k v)) = sum_list (map snd ps) - get0 ps k + v"
proof (induction ps)
  case Nil
  then show ?case by (simp add: get0_def)
next
  case (Cons p ps)
  show ?case
  proof (cases "fst p = k")
    case True
    then show ?thesis by (cases p) (simp add: get0_def)
  next
    case False
    then have "get0 (p # ps) k = get0 ps k" by (cases p) (simp add: get0_def)
    then show ?thesis using Cons False by simp
  qed
qed

lemma proto_inherited: "''__proto__'' \<in> set inherited"
  by (simp add: inherited_def)

lemma accumulate_plain:
  "\<forall>e \<in> set es. categoryOf e \<notin> set inherited \<Longrightarrow> accumulate totals es = Inr (tally totals es)"
proof (induction es arbitrary: totals)
  case Nil
  then show ?case by simp
next
  case (Cons e es)
  then have c: "categoryOf e \<notin> set inherited" and r: "\<forall>e \<in> set es. categoryOf e \<notin> set inherited"
    by simp_all
  from c have np: "categoryOf e \<noteq> ''__proto__''" using proto_inherited by metis
  show ?case
    using c np Cons.IH[OF r] by (simp add: Let_def get0_def split: option.splits)
qed

lemma keys_tally:
  "map fst (tally totals es) =
     map fst totals @ filter (\<lambda>c. c \<notin> set (map fst totals)) (firstSeen (map categoryOf es))"
proof (induction es arbitrary: totals)
  case Nil
  then show ?case by simp
next
  case (Cons e es)
  let ?c = "categoryOf e"
  let ?t = "setProp totals ?c (jsAdd (get0 totals ?c) (e_amount e))"
  have f: "filter P (removeAll x xs) = filter (\<lambda>y. P y \<and> y \<noteq> x) xs" for P and x :: string and xs
    by (induction xs) auto
  show ?case
  proof (cases "?c \<in> set (map fst totals)")
    case True
    then have "filter (\<lambda>c. c \<notin> set (map fst totals)) (removeAll ?c (firstSeen (map categoryOf es)))
             = filter (\<lambda>c. c \<notin> set (map fst totals)) (firstSeen (map categoryOf es))"
      unfolding f by (intro filter_cong) auto
    then show ?thesis using True Cons.IH[of ?t] by (simp add: keys_setProp)
  next
    case False
    have "filter (\<lambda>c. c \<notin> set (map fst totals)) (removeAll ?c (firstSeen (map categoryOf es)))
             = filter (\<lambda>c. c \<notin> set (map fst totals @ [?c])) (firstSeen (map categoryOf es))"
      unfolding f by (intro filter_cong) auto
    then show ?thesis using False Cons.IH[of ?t] by (simp add: keys_setProp)
  qed
qed

lemma distinct_firstSeen: "distinct (firstSeen xs)"
  by (induction xs) (auto simp: distinct_removeAll)

lemma set_firstSeen: "set (firstSeen xs) = set xs"
  by (induction xs) auto

lemma distinct_tally: "distinct (map fst totals) \<Longrightarrow> distinct (map fst (tally totals es))"
  by (induction es arbitrary: totals) (simp_all add: distinct_setProp)

lemma get0_tally:
  "get0 (tally totals es) c = foldl jsAdd (get0 totals c) (map e_amount (filter (\<lambda>e. categoryOf e = c) es))"
  by (induction es arbitrary: totals) (auto simp: get0_setProp)

lemma sum_tally_exact:
  assumes "distinct (map fst totals)"
    and "\<forall>n \<le> length es. \<forall>c. representable (get0 totals c + sum_list (map e_amount (filter (\<lambda>e. categoryOf e = c) (take n es))))"
  shows "sum_list (map snd (tally totals es)) = sum_list (map snd totals) + sum_list (map e_amount es)"
  using assms
proof (induction es arbitrary: totals)
  case Nil
  then show ?case by simp
next
  case (Cons e es)
  let ?c = "categoryOf e"
  let ?t = "setProp totals ?c (jsAdd (get0 totals ?c) (e_amount e))"
  from Cons.prems(2)[rule_format, of 1 ?c]
  have ex: "jsAdd (get0 totals ?c) (e_amount e) = get0 totals ?c + e_amount e"
    by (simp add: representable_def jsAdd_def)
  have d: "distinct (map fst ?t)" using Cons.prems(1) by (rule distinct_setProp)
  have h: "\<forall>n \<le> length es. \<forall>c. representable (get0 ?t c + sum_list (map e_amount (filter (\<lambda>e. categoryOf e = c) (take n es))))"
  proof (intro allI impI)
    fix n c assume "n \<le> length es"
    then have "Suc n \<le> length (e # es)" by simp
    from Cons.prems(2)[rule_format, OF this, of c]
    show "representable (get0 ?t c + sum_list (map e_amount (filter (\<lambda>e. categoryOf e = c) (take n es))))"
      by (auto simp: get0_setProp ex add.assoc)
  qed
  have "sum_list (map snd (tally ?t es)) = sum_list (map snd ?t) + sum_list (map e_amount es)"
    by (rule Cons.IH[OF d h])
  also have "sum_list (map snd ?t) = sum_list (map snd totals) + e_amount e"
    by (simp add: sum_setProp[OF Cons.prems(1)] ex)
  finally show ?case by simp
qed

lemma mset_insertBy: "mset (insertBy cmp x ys) = add_mset x (mset ys)"
  by (induction ys) auto

lemma mset_sortBy: "mset (sortBy cmp xs) = mset xs"
  by (induction xs) (simp_all add: sortBy_def mset_insertBy)

lemma mset_entries: "mset (entries obj) = mset obj"
  by (induction obj) (auto simp: entries_def)

lemma sum_list_mset_cong:
  fixes f :: "'a \<Rightarrow> rat"
  assumes "mset xs = mset ys"
  shows "sum_list (map f xs) = sum_list (map f ys)"
proof -
  have "mset (map f xs) = mset (map f ys)"
    using assms by simp
  then have "sum_mset (mset (map f xs)) = sum_mset (mset (map f ys))"
    by (rule arg_cong)
  then show ?thesis
    by (simp only: sum_mset_sum_list)
qed

lemma map_fst_insort:
  "map fst (insort_key (\<lambda>p. f (fst p)) x xs) = insort_key f (fst x) (map fst xs)"
  by (induction xs) auto

lemma map_fst_sort_key: "map fst (sort_key (\<lambda>p. f (fst p)) xs) = sort_key f (map fst xs)"
  by (induction xs) (simp_all add: map_fst_insort)

lemma keys_entries: "map fst (entries obj) = ownKeys (map fst obj)"
  by (simp add: entries_def ownKeys_def map_fst_sort_key filter_map comp_def)

section \<open>Totals by category\<close>

lemma categoryTotals_plain:
  assumes "\<forall>e \<in> set es. categoryOf e \<notin> set inherited"
  shows "categoryTotals es = Inr (sort_key (\<lambda>p. - snd p) (entries (tally [] es)))"
  by (simp add: categoryTotals_def accumulate_plain[OF assms] sortBy_sort_key)

lemma mset_result: "mset (sort_key (\<lambda>p. - snd p) (entries obj)) = mset obj"
  by (simp add: mset_entries)

lemma filter_pairs_distinct:
  "distinct (map fst xs) \<Longrightarrow> map fst (filter (\<lambda>p. snd p = v) xs) = filter (\<lambda>c. (c, v) \<in> set xs) (map fst xs)"
proof (induction xs)
  case Nil
  then show ?case by simp
next
  case (Cons p xs)
  obtain k w where p: "p = (k, w)" by (cases p)
  from Cons.prems have k: "k \<notin> fst ` set xs" and d: "distinct (map fst xs)" by (simp_all add: p)
  have "filter (\<lambda>c. c = k \<and> v = w \<or> (c, v) \<in> set xs) (map fst xs) = filter (\<lambda>c. (c, v) \<in> set xs) (map fst xs)"
    using k by (intro filter_cong) (auto simp: image_iff)
  then show ?case using Cons.IH[OF d] k by (auto simp: p image_iff)
qed

lemma ownKeys_no_index: "\<forall>k \<in> set ks. arrayIndex k = None \<Longrightarrow> ownKeys ks = ks"
  by (simp add: ownKeys_def filter_empty_conv[THEN iffD2] filter_id_conv[THEN iffD2])

lemma get0_in: "distinct (map fst ps) \<Longrightarrow> (c, v) \<in> set ps \<Longrightarrow> get0 ps c = v"
  by (simp add: get0_def)

lemma totals_grouped:
  assumes plain: "\<forall>e \<in> set es. categoryOf e \<notin> set inherited"
  shows "\<exists>ents. categoryTotals es = Inr ents \<and>
           distinct (map fst ents) \<and> set (map fst ents) = categoryOf ` set es \<and>
           (\<forall>(c, v) \<in> set ents. v = foldl jsAdd 0 (map e_amount (filter (\<lambda>e. categoryOf e = c) es))) \<and>
           sorted_wrt (\<lambda>a b. snd a \<ge> snd b) ents \<and>
           (\<forall>v. map fst (filter (\<lambda>p. snd p = v) ents) =
                 filter (\<lambda>c. (c, v) \<in> set ents) (ownKeys (firstSeen (map categoryOf es)))) \<and>
           ((\<forall>e \<in> set es. arrayIndex (categoryOf e) = None) \<longrightarrow>
              (\<forall>v. map fst (filter (\<lambda>p. snd p = v) ents) =
                 filter (\<lambda>c. (c, v) \<in> set ents) (firstSeen (map categoryOf es)))) \<and>
           (es = [] \<longrightarrow> ents = [])"
proof -
  let ?t = "tally [] es"
  let ?en = "entries ?t"
  let ?ents = "sort_key (\<lambda>p. - snd p) ?en"
  have keys_t: "map fst ?t = firstSeen (map categoryOf es)"
    using keys_tally[of "[]" es] by simp
  have d_t: "distinct (map fst ?t)" by (simp add: keys_t distinct_firstSeen)
  have m: "mset ?ents = mset ?t" by (rule mset_result)
  then have s: "set ?ents = set ?t" by (rule mset_eq_setD)
  have m_en: "mset ?en = mset ?t" by (rule mset_entries)
  have d_en: "distinct (map fst ?en)"
    using d_t m_en by (metis distinct_map mset_eq_imp_distinct_iff mset_map)
  have 1: "distinct (map fst ?ents)"
    using d_t m by (metis mset_eq_imp_distinct_iff mset_map)
  have 2: "set (map fst ?ents) = categoryOf ` set es"
    using s keys_t set_firstSeen[of "map categoryOf es"] by (metis set_map)
  have 3: "\<forall>(c, v) \<in> set ?ents. v = foldl jsAdd 0 (map e_amount (filter (\<lambda>e. categoryOf e = c) es))"
  proof (clarify)
    fix c v assume "(c, v) \<in> set ?ents"
    then have "(c, v) \<in> set ?t" using s by simp
    then have "get0 ?t c = v" using d_t by (rule get0_in[rotated])
    moreover have "get0 [] c = 0" by (simp add: get0_def)
    ultimately show "v = foldl jsAdd 0 (map e_amount (filter (\<lambda>e. categoryOf e = c) es))"
      using get0_tally[of "[]" es c] by simp
  qed
  have "sorted (map (\<lambda>p. - snd p) ?ents)" by (rule sorted_sort_key)
  then have 4: "sorted_wrt (\<lambda>a b. snd a \<ge> snd b) ?ents"
    by (simp add: sorted_map)
  have st: "filter (\<lambda>p. snd p = v) ?ents = filter (\<lambda>p. snd p = v) ?en" for v
    using sort_key_stable[of "\<lambda>p. - snd p" "- v" ?en] by simp
  have 5: "map fst (filter (\<lambda>p. snd p = v) ?ents) =
                 filter (\<lambda>c. (c, v) \<in> set ?ents) (ownKeys (firstSeen (map categoryOf es)))" for v
  proof -
    have "map fst (filter (\<lambda>p. snd p = v) ?ents) = map fst (filter (\<lambda>p. snd p = v) ?en)"
      by (simp only: st)
    also have "\<dots> = filter (\<lambda>c. (c, v) \<in> set ?en) (map fst ?en)"
      by (rule filter_pairs_distinct[OF d_en])
    also have "set ?en = set ?ents" using m m_en by (metis mset_eq_setD)
    finally show ?thesis by (simp add: keys_entries keys_t)
  qed
  have 6: "(\<forall>e \<in> set es. arrayIndex (categoryOf e) = None) \<longrightarrow>
              (\<forall>v. map fst (filter (\<lambda>p. snd p = v) ?ents) =
                 filter (\<lambda>c. (c, v) \<in> set ?ents) (firstSeen (map categoryOf es)))"
  proof (intro impI allI)
    fix v
    assume "\<forall>e \<in> set es. arrayIndex (categoryOf e) = None"
    then have "\<forall>k \<in> set (firstSeen (map categoryOf es)). arrayIndex k = None"
      by (simp add: set_firstSeen)
    then have "ownKeys (firstSeen (map categoryOf es)) = firstSeen (map categoryOf es)"
      by (rule ownKeys_no_index)
    then show "map fst (filter (\<lambda>p. snd p = v) ?ents) =
                 filter (\<lambda>c. (c, v) \<in> set ?ents) (firstSeen (map categoryOf es))"
      using 5[of v] by simp
  qed
  have 7: "es = [] \<longrightarrow> ?ents = []" by (simp add: entries_def)
  show ?thesis
    using categoryTotals_plain[OF plain] 1 2 3 4 5 6 7 by blast
qed

lemma exactSums_all:
  assumes "exactSums es" and "n \<le> length es"
  shows "representable (sum_list (map e_amount (filter (\<lambda>e. categoryOf e = c) (take n es))))"
proof (cases "c \<in> set (map categoryOf es)")
  case True
  then show ?thesis using assms by (auto simp: exactSums_def list_all_iff)
next
  case False
  then have "filter (\<lambda>e. categoryOf e = c) (take n es) = []"
    by (auto simp: filter_empty_conv dest: in_set_takeD)
  then show ?thesis by (simp add: representable_def round64_def)
qed

lemma scenario_run: "categoryTotals scenario = Inr [(''Utilities'', 60), (''Food'', 49 / 2), (''Transport'', 11 / 4)]"
  by code_simp

lemma dimes_run: "categoryTotals dimes = Inr [(''Food'', 1351079888211149 / 1125899906842624), (''Transport'', 3602879701896397 / 36028797018963968)]"
  by code_simp

lemma numbered_run: "categoryTotals numbered = Inr [(''1'', 5), (''2'', 5)]"
  by code_simp

lemma hidden_run: "categoryTotals hidden = Inr []"
  by code_simp

lemma scenario_ok: "noInheritedNames scenario" "exactSums scenario"
  by code_simp+

lemma scenario_exact:
  "exactRun (map snd [(''Utilities'', 60 :: rat), (''Food'', 49 / 2), (''Transport'', 11 / 4)])"
  "exactRun (map e_amount scenario)"
  by code_simp+

text \<open>
  Exact category totals alone do not make the sums of doubles agree: with 0.1, 0.2 and
  0.3 in three categories no addition of the loop rounds, yet the totals, added from
  the largest, give 0.6 and the amounts, added in their order, give 0.6000000000000001.
\<close>

lemma tenths_run:
  "noInheritedNames tenths \<and> exactSums tenths \<and> \<not> exactRun (map e_amount tenths) \<and>
   categoryTotals tenths =
     Inr [(''C'', 5404319552844595 / 18014398509481984), (''B'', 3602879701896397 / 18014398509481984),
          (''A'', 3602879701896397 / 36028797018963968)] \<and>
   foldl jsAdd 0 [5404319552844595 / 18014398509481984, 3602879701896397 / 18014398509481984,
                  3602879701896397 / 36028797018963968] = 5404319552844595 / 9007199254740992 \<and>
   foldl jsAdd 0 (map e_amount tenths) = 1351079888211149 / 2251799813685248"
  by code_simp

lemma tied_ok: "noInheritedNames tiedTotals" "noIndexNames tiedTotals"
  by code_simp+

lemma tied_run: "categoryTotals tiedTotals = Inr [(''Food'', 7), (''Transport'', 5), (''Other'', 5)]"
  by code_simp

lemma tied_seen: "firstSeen (map categoryOf tiedTotals) = [''Food'', ''Transport'', ''Other'']"
  by code_simp

text \<open>
  Claim C1 as stated fails. Numbers are doubles and every addition rounds: for the
  amounts 0.1 (Food), 0.1 (Transport), 1.1 (Food), each of them a double, the totals are
  1.2000000000000002 and 0.1, and their sum differs from the sum of the three amounts,
  whether the sums are taken exactly or with the additions of doubles (1.3000000000000003
  against 1.3). And a record whose category is \<^verbatim>\<open>__proto__\<close> leaves no total at all.
\<close>

theorem category_totals_not_conserved:
  "categoryTotals dimes =
     Inr [(''Food'', 1351079888211149 / 1125899906842624), (''Transport'', 3602879701896397 / 36028797018963968)] \<and>
   sum_list (map snd [(''Food'', 1351079888211149 / 1125899906842624 :: rat),
                      (''Transport'', 3602879701896397 / 36028797018963968)]) \<noteq> sum_list (map e_amount dimes) \<and>
   foldl jsAdd 0 (map snd [(''Food'', 1351079888211149 / 1125899906842624 :: rat),
                      (''Transport'', 3602879701896397 / 36028797018963968)]) \<noteq> foldl jsAdd 0 (map e_amount dimes) \<and>
   list_all (\<lambda>e. representable (e_amount e)) dimes \<and>
   categoryTotals hidden = Inr [] \<and> sum_list (map e_amount hidden) = 5"
  by code_simp

text \<open>
  Claim C1, amended. When no category names a member of \<^verbatim>\<open>Object.prototype\<close> and every
  running total of every category is a double (no addition of the loop rounds),
  \<open>categoryTotals\<close> returns totals whose exact sum is the exact sum of the amounts of all
  records. When moreover every running sum of the returned totals, in the returned
  order, and every running sum of the amounts, in the order of the records, is a
  double, the two sums agree as well when each is added as doubles from 0, left to
  right.
\<close>

theorem category_totals_conserved:
  assumes "noInheritedNames es" and "exactSums es"
  shows "\<exists>ents. categoryTotals es = Inr ents \<and>
           sum_list (map snd ents) = sum_list (map e_amount es) \<and>
           (exactRun (map snd ents) \<and> exactRun (map e_amount es) \<longrightarrow>
              foldl jsAdd 0 (map snd ents) = foldl jsAdd 0 (map e_amount es))"
proof -
  have plain: "\<forall>e \<in> set es. categoryOf e \<notin> set inherited"
    using assms(1) by (simp add: noInheritedNames_def list_all_iff)
  let ?ents = "sort_key (\<lambda>p. - snd p) (entries (tally [] es))"
  have "sum_list (map snd ?ents) = sum_list (map snd (tally [] es))"
    by (rule sum_list_mset_cong) (rule mset_result)
  also have "\<dots> = sum_list (map snd ([] :: rat object)) + sum_list (map e_amount es)"
    by (rule sum_tally_exact) (use exactSums_all[OF assms(2)] in \<open>simp_all add: get0_def\<close>)
  finally have s: "sum_list (map snd ?ents) = sum_list (map e_amount es)" by simp
  have "foldl jsAdd 0 (map snd ?ents) = foldl jsAdd 0 (map e_amount es)"
    if "exactRun (map snd ?ents)" and "exactRun (map e_amount es)"
    using plain_exact[OF that(1)] plain_exact[OF that(2)] s by simp
  then show ?thesis using categoryTotals_plain[OF plain] s by simp
qed

theorem category_totals_conserved_witness:
  "noInheritedNames scenario \<and> exactSums scenario \<and>
   categoryTotals scenario = Inr [(''Utilities'', 60), (''Food'', 49 / 2), (''Transport'', 11 / 4)] \<and>
   sum_list (map snd [(''Utilities'', 60 :: rat), (''Food'', 49 / 2), (''Transport'', 11 / 4)]) =
     sum_list (map e_amount scenario) \<and>
   exactRun (map snd [(''Utilities'', 60 :: rat), (''Food'', 49 / 2), (''Transport'', 11 / 4)]) \<and>
   exactRun (map e_amount scenario) \<and>
   foldl jsAdd 0 (map snd [(''Utilities'', 60 :: rat), (''Food'', 49 / 2), (''Transport'', 11 / 4)]) =
     foldl jsAdd 0 (map e_amount scenario)"
  using category_totals_conserved[OF scenario_ok] scenario_ok scenario_run scenario_exact by auto

text \<open>
  Claim C2 as stated fails. Totals that tie come in the order of \<^verbatim>\<open>Object.entries\<close>, which
  lists keys that are array indices first, in numeric order: the categories \<^verbatim>\<open>2\<close> and \<^verbatim>\<open>1\<close>,
  met in this order with equal totals, come out as \<^verbatim>\<open>1\<close>, \<^verbatim>\<open>2\<close>. And the category
  \<^verbatim>\<open>__proto__\<close> gets no pair.
\<close>

theorem category_order_counterexample:
  "map categoryOf numbered = [''2'', ''1''] \<and>
   categoryTotals numbered = Inr [(''1'', 5), (''2'', 5)] \<and>
   map categoryOf hidden = [''__proto__''] \<and> categoryTotals hidden = Inr []"
  by code_simp

text \<open>
  Claim C2, amended. When no category names a member of \<^verbatim>\<open>Object.prototype\<close>,
  \<open>categoryTotals\<close> returns one pair for each distinct category, a missing or empty
  category counting as \<^verbatim>\<open>Other\<close>; the total of a pair is the sum of the amounts of its
  category, added in the order of the records; the pairs are in descending order of total;
  pairs of equal total are in the key order of the object (array-index names first, in
  numeric order, then the other names as first met), which is the order of first
  occurrence when no category is an array index; and no record gives no pair.
\<close>

theorem category_totals_grouped:
  assumes "noInheritedNames es"
  shows "\<exists>ents. categoryTotals es = Inr ents \<and>
           distinct (map fst ents) \<and>
           set (map fst ents) =
             (\<lambda>e. case e_category e of None \<Rightarrow> ''Other'' | Some c \<Rightarrow> if c = [] then ''Other'' else c) ` set es \<and>
           (\<forall>(c, v) \<in> set ents. v = foldl jsAdd 0 (map e_amount (filter (\<lambda>e. categoryOf e = c) es))) \<and>
           sorted_wrt (\<lambda>a b. snd a \<ge> snd b) ents \<and>
           (\<forall>v. map fst (filter (\<lambda>p. snd p = v) ents) =
                 filter (\<lambda>c. (c, v) \<in> set ents) (ownKeys (firstSeen (map categoryOf es)))) \<and>
           (noIndexNames es \<longrightarrow>
              (\<forall>v. map fst (filter (\<lambda>p. snd p = v) ents) =
                 filter (\<lambda>c. (c, v) \<in> set ents) (firstSeen (map categoryOf es)))) \<and>
           (es = [] \<longrightarrow> ents = [])"
proof -
  have plain: "\<forall>e \<in> set es. categoryOf e \<notin> set inherited"
    using assms by (simp add: noInheritedNames_def list_all_iff)
  have c: "(\<lambda>e. case e_category e of None \<Rightarrow> ''Other'' | Some c \<Rightarrow> if c = [] then ''Other'' else c) = categoryOf"
    by (simp add: fun_eq_iff categoryOf_def)
  have n: "noIndexNames es = (\<forall>e \<in> set es. arrayIndex (categoryOf e) = None)"
    by (simp add: noIndexNames_def list_all_iff)
  show ?thesis
    unfolding c n by (rule totals_grouped[OF plain])
qed

theorem category_totals_grouped_witness:
  "noInheritedNames tiedTotals \<and> noIndexNames tiedTotals \<and>
   categoryTotals tiedTotals = Inr [(''Food'', 7), (''Transport'', 5), (''Other'', 5)] \<and>
   firstSeen (map categoryOf tiedTotals) = [''Food'', ''Transport'', ''Other''] \<and>
   map fst (filter (\<lambda>p. snd p = 5) [(''Food'', 7 :: rat), (''Transport'', 5), (''Other'', 5)]) =
     filter (\<lambda>c. (c, 5) \<in> set [(''Food'', 7 :: rat), (''Transport'', 5), (''Other'', 5)])
       (firstSeen (map categoryOf tiedTotals))"
proof -
  from category_totals_grouped[OF tied_ok(1)] obtain ents where
    e: "categoryTotals tiedTotals = Inr ents"
    and t: "noIndexNames tiedTotals \<longrightarrow>
              (\<forall>v. map fst (filter (\<lambda>p. snd p = v) ents) =
                 filter (\<lambda>c. (c, v) \<in> set ents) (firstSeen (map categoryOf tiedTotals)))"
    by blast
  from e tied_run have ents: "ents = [(''Food'', 7), (''Transport'', 5), (''Other'', 5)]" by simp
  from t tied_ok(2) have "map fst (filter (\<lambda>p. snd p = 5) ents) =
                 filter (\<lambda>c. (c, 5) \<in> set ents) (firstSeen (map categoryOf tiedTotals))"
    by blast
  then show ?thesis
    unfolding ents using tied_ok tied_run tied_seen by blast
qed

section \<open>Totals by month\<close>

text \<open>
  The labels are the \<open>monthsBack\<close> months that end with the month of \<open>now\<close>, oldest
  first, whatever the records are; the values are as many. Where local time is not behind
  UTC, the value of a month is the sum of the amounts of the records dated in it.
\<close>

lemma keys_window:
  "distinct (map f is) \<Longrightarrow> set (map f is) \<inter> set (map fst acc) = {} \<Longrightarrow>
   map fst (foldl (\<lambda>m i. setProp m (f i) (0::rat)) acc is) = map fst acc @ map f is"
proof (induction "is" arbitrary: acc)
  case Nil
  then show ?case by simp
next
  case (Cons i "is")
  have "map fst (foldl (\<lambda>m i. setProp m (f i) 0) (setProp acc (f i) 0) is) = map fst (setProp acc (f i) 0) @ map f is"
    using Cons.prems by (intro Cons.IH) (auto simp: keys_setProp)
  then show ?case using Cons.prems by (auto simp: keys_setProp)
qed

lemma keys_records:
  "map fst (foldl (\<lambda>m e. case g e of None \<Rightarrow> m
                           | Some d \<Rightarrow> (case map_of m (h d) of None \<Rightarrow> m
                                        | Some v \<Rightarrow> setProp m (h d) (jsAdd v (e_amount e)))) acc es) = map fst acc"
proof (induction es arbitrary: acc)
  case Nil
  then show ?case by simp
next
  case (Cons e es)
  show ?case
    by (simp add: Cons.IH keys_setProp map_of_eq_None_iff split: option.splits)
       (metis domI dom_map_of_conv_image_fst)
qed

lemma window_inj: "inj (\<lambda>i. keyOf (dateYM y (m - i)))"
proof (rule injI)
  fix a b :: int
  assume "keyOf (dateYM y (m - a)) = keyOf (dateYM y (m - b))"
  then have "(m - a) div 12 = (m - b) div 12" "(m - a) mod 12 = (m - b) mod 12"
    by (simp_all add: keyOf_def dateYM_def Let_def)
  then have "m - a = m - b"
    by (metis div_mult_mod_eq)
  then show "a = b" by simp
qed

lemma monthly_labels:
  "fst (monthlyTotals offset (y, m) expenses monthsBack) =
     map (\<lambda>i. keyOf (dateYM y (m - i))) (rev [0..monthsBack - 1])"
proof -
  have d: "distinct (map (\<lambda>i. keyOf (dateYM y (m - i))) (rev [0..monthsBack - 1]))"
    by (simp add: distinct_map inj_on_subset[OF window_inj])
  show ?thesis
    by (simp add: monthlyTotals_def Let_def keys_records keys_window[OF d])
qed

lemma monthly_lengths:
  "length (fst (monthlyTotals offset (y, m) expenses monthsBack)) = nat monthsBack \<and>
   length (snd (monthlyTotals offset (y, m) expenses monthsBack)) = nat monthsBack"
proof -
  have "length (snd (monthlyTotals offset (y, m) expenses monthsBack)) =
        length (fst (monthlyTotals offset (y, m) expenses monthsBack))"
    by (simp add: monthlyTotals_def Let_def)
  then show ?thesis by (simp add: monthly_labels)
qed

lemma setProp_distinct:
  "distinct (map fst acc) \<Longrightarrow> map_of acc k = Some v \<Longrightarrow>
   setProp acc k v' = map (\<lambda>p. if fst p = k then (k, v') else p) acc"
proof (induction acc)
  case Nil
  then show ?case by simp
next
  case (Cons p acc)
  show ?case
  proof (cases "fst p = k")
    case True
    then have "k \<notin> fst ` set acc" using Cons.prems(1) by auto
    then have "map (\<lambda>p. if fst p = k then (k, v') else p) acc = acc"
      by (intro map_idI) auto
    then show ?thesis using True by simp
  next
    case False
    then have "map_of acc k = Some v" using Cons.prems(2) by (cases p) auto
    then show ?thesis using Cons False by simp
  qed
qed

lemma values_records:
  assumes "distinct (map fst acc)"
  shows "foldl (\<lambda>m e. case g e of None \<Rightarrow> m
                           | Some d \<Rightarrow> (case map_of m (h d) of None \<Rightarrow> m
                                        | Some v \<Rightarrow> setProp m (h d) (jsAdd v (e_amount e)))) acc es =
         map (\<lambda>p. (fst p, foldl jsAdd (snd p)
                (map e_amount (filter (\<lambda>e. case g e of None \<Rightarrow> False | Some d \<Rightarrow> h d = fst p) es)))) acc"
  using assms
proof (induction es arbitrary: acc)
  case Nil
  then show ?case by simp
next
  case (Cons e es)
  let ?step = "\<lambda>m e. case g e of None \<Rightarrow> m
                           | Some d \<Rightarrow> (case map_of m (h d) of None \<Rightarrow> m
                                        | Some v \<Rightarrow> setProp m (h d) (jsAdd v (e_amount e)))"
  have d: "distinct (map fst (?step acc e))"
    using Cons.prems by (auto simp: keys_setProp split: option.splits dest: map_of_SomeD)
  have s: "?step acc e = map (\<lambda>p. if (case g e of None \<Rightarrow> False | Some d \<Rightarrow> h d = fst p)
                                    then (fst p, jsAdd (snd p) (e_amount e)) else p) acc"
  proof (cases "g e")
    case None
    then show ?thesis by simp
  next
    case (Some dd)
    show ?thesis
    proof (cases "map_of acc (h dd)")
      case None
      then have "h dd \<notin> fst ` set acc" by (simp add: map_of_eq_None_iff)
      then have "map (\<lambda>p. if h dd = fst p then (fst p, jsAdd (snd p) (e_amount e)) else p) acc = acc"
        by (intro map_idI) auto
      then show ?thesis using Some None by simp
    next
      case (Some v)
      have "map (\<lambda>p. if fst p = h dd then (h dd, jsAdd v (e_amount e)) else p) acc =
            map (\<lambda>p. if h dd = fst p then (fst p, jsAdd (snd p) (e_amount e)) else p) acc"
      proof (rule map_cong[OF refl])
        fix p assume p: "p \<in> set acc"
        show "(if fst p = h dd then (h dd, jsAdd v (e_amount e)) else p) =
              (if h dd = fst p then (fst p, jsAdd (snd p) (e_amount e)) else p)"
        proof (cases "fst p = h dd")
          case True
          then have "map_of acc (h dd) = Some (snd p)"
            using p Cons.prems by (cases p) (simp add: map_of_is_SomeI)
          then have "snd p = v" using Some by simp
          then show ?thesis using True by simp
        next
          case False
          then show ?thesis by auto
        qed
      qed
      then show ?thesis
        using \<open>g e = Some dd\<close> Some setProp_distinct[OF Cons.prems Some] by simp
    qed
  qed
  show ?case
    unfolding foldl_Cons Cons.IH[OF d] unfolding s
    by (auto simp: comp_def split: option.splits)
qed

lemma zeros_window:
  "\<forall>p \<in> set acc. snd p = 0 \<Longrightarrow> \<forall>p \<in> set (foldl (\<lambda>m i. setProp m (f i) (0::rat)) acc is). snd p = 0"
proof (induction "is" arbitrary: acc)
  case Nil
  then show ?case by simp
next
  case (Cons i "is")
  have "\<forall>p \<in> set (setProp acc (f i) (0::rat)). snd p = 0"
    using Cons.prems by (induction acc) auto
  then show ?case using Cons.IH by simp
qed

lemma localYM_east:
  "0 \<le> offset \<Longrightarrow>
   (case localYM offset s of None \<Rightarrow> False | Some d \<Rightarrow> keyOf d = k) =
   (case parseDate s of None \<Rightarrow> False | Some (yy, mm, dd) \<Rightarrow> (yy, mm) = k)"
  by (auto simp: localYM_def keyOf_def split: option.splits)

lemma monthly_east:
  assumes "0 \<le> offset"
  shows "snd (monthlyTotals offset (y, m) expenses monthsBack) =
         map (\<lambda>k. foldl jsAdd 0 (map e_amount
                (filter (\<lambda>e. case parseDate (e_date e) of None \<Rightarrow> False | Some (yy, mm, dd) \<Rightarrow> (yy, mm) = k)
                   expenses)))
           (fst (monthlyTotals offset (y, m) expenses monthsBack))"
proof -
  let ?f = "\<lambda>i. keyOf (dateYM y (m - i))"
  let ?map0 = "foldl (\<lambda>m i. setProp m (?f i) (0::rat)) [] (rev [0..monthsBack - 1])"
  have d: "distinct (map ?f (rev [0..monthsBack - 1]))"
    by (simp add: distinct_map inj_on_subset[OF window_inj])
  have k0: "map fst ?map0 = map ?f (rev [0..monthsBack - 1])"
    using keys_window[OF d, of "[]"] by simp
  have d0: "distinct (map fst ?map0)" using d k0 by simp
  have z: "\<forall>p \<in> set ?map0. snd p = 0" by (rule zeros_window) simp
  have "map (\<lambda>p. foldl jsAdd (snd p) (map e_amount (filter (\<lambda>e. case localYM offset (e_date e) of None \<Rightarrow> False | Some d \<Rightarrow> keyOf d = fst p) expenses))) ?map0
      = map (\<lambda>p. foldl jsAdd 0 (map e_amount (filter (\<lambda>e. case parseDate (e_date e) of None \<Rightarrow> False | Some (yy, mm, dd) \<Rightarrow> (yy, mm) = fst p) expenses))) ?map0"
    using z by (intro map_cong[OF refl]) (simp add: localYM_east[OF assms])
  then show ?thesis
    unfolding monthlyTotals_def Let_def
    by (simp add: values_records[OF d0] comp_def)
qed

text \<open>
  Claim C3 does not hold where local time is behind UTC. With the clock in July 2025, two
  months asked for and one expense of 10 dated 2025-07-01, the value 10 is in the bucket of
  June, which no record is dated in, and July has 0: the date string is read as midnight
  UTC and its month is then taken in local time, four hours earlier. With local time equal
  to UTC the same call puts the 10 in July.
\<close>

theorem monthly_west_of_utc:
  "monthlyTotals (- 240) (2025, 6) firstOfJuly 2 = ([(2025, 6), (2025, 7)], [10, 0]) \<and>
   monthlyTotals 0 (2025, 6) firstOfJuly 2 = ([(2025, 6), (2025, 7)], [0, 10])"
  by code_simp

end
